theory Spec2Isabelle
  imports Complex_Main
begin

chapter \<open>Couples gallery: the client components and the gates they rely on\<close>

text \<open>
  The repository is a React front end (gallery page, admin share manager, folder manager,
  activity logs, orders manager, print order cart) talking to a REST back end. The front end
  is embedded here function by function; component state is a record, an event handler is a
  function from the state (and the server's answer, where it awaits one) to the new state and
  the toasts it shows. The back end is not part of the sources; where a property needs it, it
  is modelled from the specification and marked as such.
\<close>

section \<open>JavaScript strings\<close>

text \<open>
  Strings are lists of code units; a \<^typ>\<open>char\<close> holds the code units 0 to 255 (Latin-1).
  \<open>String.prototype.toLowerCase\<close> on this range maps A-Z and the accented capitals
  (192 to 222, except the multiplication sign 215) 32 places up and leaves the rest alone.
\<close>

definition toLowerChar :: "char \<Rightarrow> char" where
  "toLowerChar c =
     (let n = (of_char c :: nat)
      in if (65 \<le> n \<and> n \<le> 90) \<or> (192 \<le> n \<and> n \<le> 222 \<and> n \<noteq> 215)
         then char_of (n + 32) else c)"

definition toLowerCase :: "string \<Rightarrow> string" where
  "toLowerCase s = map toLowerChar s"

text \<open>The character class \<open>[a-z0-9]\<close>.\<close>

definition is_az09 :: "char \<Rightarrow> bool" where
  "is_az09 c =
     (let n = (of_char c :: nat) in (97 \<le> n \<and> n \<le> 122) \<or> (48 \<le> n \<and> n \<le> 57))"

text \<open>White space and line terminators, as \<open>trim\<close> removes them from both ends.\<close>

definition is_whitespace :: "char \<Rightarrow> bool" where
  "is_whitespace c = (let n = (of_char c :: nat) in (9 \<le> n \<and> n \<le> 13) \<or> n = 32 \<or> n = 160)"

definition trim :: "string \<Rightarrow> string" where
  "trim s = rev (dropWhile is_whitespace (rev (dropWhile is_whitespace s)))"

text \<open>Decimal rendering of a non-negative integer, as template literals print it.\<close>

definition digit_char :: "nat \<Rightarrow> char" where
  "digit_char d = char_of (48 + d)"

function show_nat :: "nat \<Rightarrow> string" where
  "show_nat n = (if n < 10 then [digit_char n] else show_nat (n div 10) @ [digit_char (n mod 10)])"
  by pat_completeness auto
termination
  by (relation "measure id") auto

declare show_nat.simps [simp del]

datatype toast = ToastSuccess string | ToastError string | ToastInfo string

text \<open>\<open>res.ok\<close> of the Fetch API (and the same test written out on an XMLHttpRequest).\<close>

definition ok :: "nat \<Rightarrow> bool" where
  "ok status = (200 \<le> status \<and> status < 300)"

section \<open>JavaScript numbers\<close>

text \<open>
  A JavaScript number is an IEEE 754 double. A finite double is modelled by the rational
  number it stands for, and an arithmetic operation gives the exact result rounded to the
  nearest double: 53 significant bits, a tie going to the even significand. The exponent is
  not bounded here: the numbers are taken between 2^-1022 and 2^1024 in magnitude, where a
  double neither overflows nor loses bits as a subnormal number; NaN and the infinities are
  left out.
\<close>

text \<open>
  How many times \<open>n\<close> can be divided by \<open>k\<close> before it falls below \<open>k\<close>: for \<open>n\<close> from 1, the
  floor of the logarithm of \<open>n\<close> to base \<open>k\<close>.
\<close>

function floor_log :: "nat \<Rightarrow> nat \<Rightarrow> nat" where
  "floor_log k n = (if k \<le> 1 \<or> n < k then 0 else Suc (floor_log k (n div k)))"
  by pat_completeness auto
termination
  by (relation "measure (\<lambda>(k, n). n)") auto

declare floor_log.simps [simp del]

text \<open>Two to the power \<open>e\<close>, for a whole number \<open>e\<close> of either sign.\<close>

definition pow2 :: "int \<Rightarrow> rat" where
  "pow2 e = (if 0 \<le> e then 2 ^ nat e else 1 / 2 ^ nat (- e))"

text \<open>
  The binary exponent of a positive number \<open>x\<close>: the \<open>e\<close> with \<open>2^e \<le> x < 2^(e+1)\<close>, read
  off the whole part of \<open>x\<close> from 1 on, and off the whole number next above \<open>1 / x\<close> below 1.
\<close>

definition exponent :: "rat \<Rightarrow> int" where
  "exponent x =
     (if 1 \<le> x then int (floor_log 2 (nat \<lfloor>x\<rfloor>))
      else - int (floor_log 2 (nat \<lceil>1 / x\<rceil> - 1)) - 1)"

text \<open>The nearest whole number, a tie going to the even one.\<close>

definition round_half_even :: "rat \<Rightarrow> int" where
  "round_half_even m =
     (let f = \<lfloor>m\<rfloor>; r = m - of_int f
      in if r < 1 / 2 then f else if 1 / 2 < r then f + 1 else if even f then f else f + 1)"

text \<open>
  The nearest double: with \<open>e\<close> the exponent of the magnitude, the doubles around it are the
  multiples of \<open>2^(e-52)\<close>.
\<close>

definition round64 :: "rat \<Rightarrow> rat" where
  "round64 x =
     (if x = 0 then 0
      else
        (let ulp = pow2 (exponent \<bar>x\<bar> - 52)
         in sgn x * of_int (round_half_even (\<bar>x\<bar> / ulp)) * ulp))"

text \<open>The operators \<open>+\<close>, \<open>-\<close> and \<open>*\<close> on numbers.\<close>

definition js_add :: "rat \<Rightarrow> rat \<Rightarrow> rat" where
  "js_add a b = round64 (a + b)"

definition js_sub :: "rat \<Rightarrow> rat \<Rightarrow> rat" where
  "js_sub a b = round64 (a - b)"

definition js_mul :: "rat \<Rightarrow> rat \<Rightarrow> rat" where
  "js_mul a b = round64 (a * b)"

section \<open>ShareManager: creating a share\<close>

text \<open>
  \<open>const cleanToken = newShare.token.toLowerCase().replace(/[^a-z0-9]/g, '')\<close>
\<close>

definition cleanToken :: "string \<Rightarrow> string" where
  "cleanToken t = filter is_az09 (toLowerCase t)"

record newShare_form =
  ns_folder_id :: string
  ns_token :: string
  ns_permission :: string

datatype createShare_step =
    CreateShareToast toast
  | PostShares string string string

text \<open>
  \<open>createShare\<close> up to the request it sends: an empty folder or a blank token stops with
  a toast; otherwise the body carries the folder, the cleaned token and the permission.
\<close>

definition createShare :: "newShare_form \<Rightarrow> createShare_step" where
  "createShare ns =
     (if ns_folder_id ns = [] \<or> trim (ns_token ns) = []
      then CreateShareToast (ToastError ''Please fill in all fields'')
      else PostShares (ns_folder_id ns) (cleanToken (ns_token ns)) (ns_permission ns))"

definition SHARE_DOMAIN :: string where
  "SHARE_DOMAIN = ''https://weddingsbymark.uk''"

text \<open>The link shown under the token input: the cleaned token, or a placeholder when it is empty.\<close>

definition share_link_preview :: "string \<Rightarrow> string" where
  "share_link_preview t =
     SHARE_DOMAIN @ ''/'' @ (if cleanToken t = [] then ''yourtoken'' else cleanToken t)"

section \<open>The permission gate of the back end\<close>

datatype permission = Read | Edit | Full

datatype operation = ViewList | Download | Upload | Favourite | Delete

datatype api_error = NotFound | Forbidden | Conflict | ValidationError | Unauthorized | StorageError

record share =
  share_folder_id :: string
  share_token :: string
  share_permission :: permission

record server =
  srv_folders :: "string list"
  srv_shares :: "share list"

text \<open>
  Modelled from the spec: the share creation handler of the back end (\<open>POST /api/shares\<close>)
  is not among the sources. The specification says that the submitted token is lowercased and
  stripped of non-alphanumeric characters before creation, and that a duplicate token is a
  \<open>Conflict\<close>.
\<close>

definition server_createShare :: "server \<Rightarrow> string \<Rightarrow> string \<Rightarrow> permission \<Rightarrow> api_error + server" where
  "server_createShare srv fid t p =
     (let tok = cleanToken t
      in if list_ex (\<lambda>s. share_token s = tok) (srv_shares srv) then Inl Conflict
         else Inr (srv\<lparr>srv_shares := srv_shares srv @
                   [\<lparr>share_folder_id = fid, share_token = tok, share_permission = p\<rparr>]\<rparr>))"

text \<open>
  Modelled from the spec: \<open>resolveShare(token) -> {folder_id, permission}\<close> of the back end
  is not among the sources. The specification says that the token is normalised before lookup
  and that resolution fails with \<open>NotFound\<close> if the token matches no share or the share's
  folder no longer exists.
\<close>

definition resolveShare :: "server \<Rightarrow> string \<Rightarrow> api_error + share" where
  "resolveShare srv t =
     (case find (\<lambda>s. share_token s = cleanToken t) (srv_shares srv) of
        None \<Rightarrow> Inl NotFound
      | Some s \<Rightarrow> if share_folder_id s \<in> set (srv_folders srv) then Inr s else Inl NotFound)"

text \<open>
  Modelled from the spec: the table of permission tiers (the tier check of the back end is not
  among the sources). Viewing and downloading are open to every tier, uploading and
  favourites need edit or full, deleting needs full.
\<close>

fun tier_allows :: "permission \<Rightarrow> operation \<Rightarrow> bool" where
  "tier_allows _ ViewList = True"
| "tier_allows _ Download = True"
| "tier_allows p Upload = (p = Edit \<or> p = Full)"
| "tier_allows p Favourite = (p = Edit \<or> p = Full)"
| "tier_allows p Delete = (p = Full)"

text \<open>
  Modelled from the spec: a public request re-resolves its token and re-checks the tier before
  acting; an operation beyond the tier is \<open>Forbidden\<close>.
\<close>

definition gallery_request :: "server \<Rightarrow> string \<Rightarrow> operation \<Rightarrow> api_error + share" where
  "gallery_request srv t opn =
     (case resolveShare srv t of
        Inl e \<Rightarrow> Inl e
      | Inr s \<Rightarrow> if tier_allows (share_permission s) opn then Inr s else Inl Forbidden)"

section \<open>GalleryPage: the public gallery\<close>

record gallery_data =
  gal_folder_id :: string
  gal_folder_name :: string
  gal_permission :: string

record gallery_file =
  gf_id :: string
  gf_name :: string
  gf_file_type :: string

record gallery_page =
  gp_gallery :: "gallery_data option"
  gp_folders :: "string list"
  gp_files :: "gallery_file list"
  gp_loading :: bool
  gp_error :: "string option"
  gp_selectionMode :: bool
  gp_favouritesMode :: bool
  gp_uploading :: bool
  gp_selectedFiles :: "string list"
  gp_savingFavourites :: bool

text \<open>What \<open>fetch\<close> and \<open>res.json()\<close> can come back with.\<close>

datatype 'a body = Json 'a | BadJson string

datatype 'a fetched = FetchFailed string | Response nat "'a body"

text \<open>
  \<open>fetchGallery\<close>: a response that is not ok throws \<open>Error('Gallery not found')\<close>; whatever
  is thrown ends as \<open>setError(e.message)\<close>; \<open>finally\<close> clears the loading flag.
\<close>

definition fetchGallery :: "gallery_page \<Rightarrow> gallery_data fetched \<Rightarrow> gallery_page" where
  "fetchGallery st r =
     (case r of
        FetchFailed m \<Rightarrow> st\<lparr>gp_error := Some m, gp_loading := False\<rparr>
      | Response status b \<Rightarrow>
          if \<not> ok status then st\<lparr>gp_error := Some ''Gallery not found'', gp_loading := False\<rparr>
          else (case b of
                  BadJson m \<Rightarrow> st\<lparr>gp_error := Some m, gp_loading := False\<rparr>
                | Json d \<Rightarrow> st\<lparr>gp_gallery := Some d, gp_loading := False\<rparr>))"

text \<open>
  \<open>const canEdit = gallery?.permission === 'edit' || gallery?.permission === 'full'\<close>
\<close>

definition canEdit :: "gallery_data option \<Rightarrow> bool" where
  "canEdit g =
     (case g of None \<Rightarrow> False
      | Some d \<Rightarrow> gal_permission d = ''edit'' \<or> gal_permission d = ''full'')"

definition imageFiles :: "gallery_page \<Rightarrow> gallery_file list" where
  "imageFiles st = filter (\<lambda>f. gf_file_type f = ''image'') (gp_files st)"

text \<open>
  The buttons of the content area, named by their \<open>data-testid\<close>; those that can be
  disabled carry their \<open>disabled\<close> flag.
\<close>

datatype control =
    section_upload_btn bool | select_btn | slideshow_btn | download_all_btn
  | select_favourites_btn | upload_btn bool | select_all_btn | save_favourites_btn bool
  | download_selected_btn bool | cancel_select_btn | empty_upload_btn bool

datatype page_view =
    LoadingView
  | ErrorView string string
  | GalleryView "control list"

text \<open>A JavaScript string is truthy when it is there and not empty.\<close>

definition truthy :: "string option \<Rightarrow> bool" where
  "truthy e = (case e of None \<Rightarrow> False | Some m \<Rightarrow> m \<noteq> [])"

text \<open>
  The render function of the page, by its early returns and its conditional blocks: the
  upload section when there are no photos, the photo toolbar (two variants, by selection
  mode), and the empty state.
\<close>

definition render :: "gallery_page \<Rightarrow> page_view" where
  "render st =
     (if gp_loading st then LoadingView
      else if truthy (gp_error st)
      then ErrorView ''Gallery Not Found'' ''This gallery link may have expired or been removed.''
      else GalleryView
        ((if imageFiles st = [] \<and> canEdit (gp_gallery st)
          then [section_upload_btn (gp_uploading st)] else []) @
         (if imageFiles st \<noteq> [] then
            (if \<not> gp_selectionMode st then
               [select_btn, slideshow_btn, download_all_btn] @
               (if canEdit (gp_gallery st)
                then [select_favourites_btn, upload_btn (gp_uploading st)] else [])
             else
               [select_all_btn,
                (if gp_favouritesMode st
                 then save_favourites_btn (gp_savingFavourites st \<or> gp_selectedFiles st = [])
                 else download_selected_btn (gp_selectedFiles st = [])),
                cancel_select_btn])
          else []) @
         (if gp_folders st = [] \<and> gp_files st = [] then
            (if canEdit (gp_gallery st) then [empty_upload_btn (gp_uploading st)] else [])
          else [])))"

text \<open>
  The controls whose click opens the file chooser; while an upload runs they are shown
  disabled. And the control that starts the favourites selection.
\<close>

definition is_upload_control :: "control \<Rightarrow> bool" where
  "is_upload_control c =
     (case c of
        section_upload_btn d \<Rightarrow> True
      | upload_btn d \<Rightarrow> True
      | empty_upload_btn d \<Rightarrow> True
      | _ \<Rightarrow> False)"

definition upload_offered :: "gallery_page \<Rightarrow> bool" where
  "upload_offered st =
     (case render st of GalleryView cs \<Rightarrow> list_ex is_upload_control cs | _ \<Rightarrow> False)"

definition upload_enabled :: "gallery_page \<Rightarrow> bool" where
  "upload_enabled st =
     (case render st of
        GalleryView cs \<Rightarrow>
          section_upload_btn False \<in> set cs \<or> upload_btn False \<in> set cs
          \<or> empty_upload_btn False \<in> set cs
      | _ \<Rightarrow> False)"

definition favourites_offered :: "gallery_page \<Rightarrow> bool" where
  "favourites_offered st =
     (case render st of GalleryView cs \<Rightarrow> select_favourites_btn \<in> set cs | _ \<Rightarrow> False)"

text \<open>The page as it mounts, by the initial values of its state.\<close>

definition initial_page :: gallery_page where
  "initial_page =
     \<lparr>gp_gallery = None, gp_folders = [], gp_files = [], gp_loading = True, gp_error = None,
      gp_selectionMode = False, gp_favouritesMode = False, gp_uploading = False,
      gp_selectedFiles = [], gp_savingFavourites = False\<rparr>"

definition controls :: "gallery_page \<Rightarrow> control list" where
  "controls st = (case render st of GalleryView cs \<Rightarrow> cs | _ \<Rightarrow> [])"

definition exitSelectionMode :: "gallery_page \<Rightarrow> gallery_page" where
  "exitSelectionMode st =
     st\<lparr>gp_selectionMode := False, gp_favouritesMode := False, gp_selectedFiles := []\<rparr>"

definition enterFavouritesMode :: "gallery_page \<Rightarrow> gallery_page" where
  "enterFavouritesMode st =
     st\<lparr>gp_favouritesMode := True, gp_selectionMode := True, gp_selectedFiles := []\<rparr>"

definition toggleSelectFile :: "string \<Rightarrow> gallery_page \<Rightarrow> gallery_page" where
  "toggleSelectFile fileId st =
     (if fileId \<in> set (gp_selectedFiles st)
      then st\<lparr>gp_selectedFiles := removeAll fileId (gp_selectedFiles st)\<rparr>
      else st\<lparr>gp_selectedFiles := gp_selectedFiles st @ [fileId]\<rparr>)"

definition selectAllFiles :: "gallery_page \<Rightarrow> gallery_page" where
  "selectAllFiles st =
     (if length (gp_selectedFiles st) = length (imageFiles st)
      then st\<lparr>gp_selectedFiles := []\<rparr>
      else st\<lparr>gp_selectedFiles := remdups (map gf_id (imageFiles st))\<rparr>)"

text \<open>
  The events of a resolved page that touch the selection: clicks on the toolbar (counted only
  when the button is shown and enabled), a click on a photo in selection mode, navigation to
  a folder, a reload of the content, and the answer to saving the favourites.
\<close>

datatype page_event =
    ClickSelect
  | ClickSelectFavourites
  | ClickSelectAll
  | ClickCancelSelect
  | ClickPhoto string
  | NavigateToFolder
  | ContentFetched "string list" "gallery_file list"
  | ClickSaveFavourites bool

fun handle_page_event :: "page_event \<Rightarrow> gallery_page \<Rightarrow> gallery_page" where
  "handle_page_event ClickSelect st =
     (if select_btn \<in> set (controls st) then st\<lparr>gp_selectionMode := True\<rparr> else st)"
| "handle_page_event ClickSelectFavourites st =
     (if select_favourites_btn \<in> set (controls st) then enterFavouritesMode st else st)"
| "handle_page_event ClickSelectAll st =
     (if select_all_btn \<in> set (controls st) then selectAllFiles st else st)"
| "handle_page_event ClickCancelSelect st =
     (if cancel_select_btn \<in> set (controls st) then exitSelectionMode st else st)"
| "handle_page_event (ClickPhoto fileId) st =
     (if gp_selectionMode st \<and> fileId \<in> gf_id ` set (imageFiles st)
      then toggleSelectFile fileId st else st)"
| "handle_page_event NavigateToFolder st = exitSelectionMode st"
| "handle_page_event (ContentFetched folders files) st = st\<lparr>gp_folders := folders, gp_files := files\<rparr>"
| "handle_page_event (ClickSaveFavourites saved) st =
     (if save_favourites_btn False \<in> set (controls st) \<and> saved then exitSelectionMode st else st)"

fun page_events :: "page_event list \<Rightarrow> gallery_page \<Rightarrow> gallery_page" where
  "page_events [] st = st"
| "page_events (e # es) st = page_events es (handle_page_event e st)"

definition save_favourites_shown :: "gallery_page \<Rightarrow> bool" where
  "save_favourites_shown st =
     (save_favourites_btn True \<in> set (controls st) \<or> save_favourites_btn False \<in> set (controls st))"

section \<open>PrintOrderCart: the cart\<close>

text \<open>
  Prices are JavaScript numbers in pounds: the doubles that the decimal prices of the product
  list parse to. Quantities are whole numbers, which are doubles too below 2^53.
\<close>

definition SHIPPING_FEE :: rat where
  "SHIPPING_FEE = 5 / 2"

definition MIN_ORDER :: rat where
  "MIN_ORDER = 15"

record cart_item =
  ci_file_id :: string
  ci_file_name :: string
  ci_file_thumbnail :: string
  ci_product_id :: string
  ci_product_name :: string
  ci_size :: string
  ci_paper_type :: string
  ci_price :: rat
  ci_quantity :: int

record print_file =
  pf_id :: string
  pf_name :: string
  pf_thumbnail_url :: string

record print_product =
  pp_id :: string
  pp_name :: string
  pp_size :: string
  pp_paper_type :: string
  pp_price :: rat

text \<open>\<open>Array.prototype.findIndex\<close>: the first index whose element passes, \<open>None\<close> for -1.\<close>

fun findIndex :: "('a \<Rightarrow> bool) \<Rightarrow> 'a list \<Rightarrow> nat option" where
  "findIndex P [] = None"
| "findIndex P (x # xs) = (if P x then Some 0 else map_option Suc (findIndex P xs))"

text \<open>\<open>arr.splice(index, 1)\<close> for an index from 0: past the end it removes nothing.\<close>

definition splice1 :: "nat \<Rightarrow> 'a list \<Rightarrow> 'a list" where
  "splice1 index xs = take index xs @ drop (Suc index) xs"

definition new_item :: "print_file \<Rightarrow> print_product \<Rightarrow> cart_item" where
  "new_item file product =
     \<lparr>ci_file_id = pf_id file, ci_file_name = pf_name file,
      ci_file_thumbnail = pf_thumbnail_url file, ci_product_id = pp_id product,
      ci_product_name = pp_name product, ci_size = pp_size product,
      ci_paper_type = pp_paper_type product, ci_price = pp_price product, ci_quantity = 1\<rparr>"

text \<open>
  \<open>addToCart\<close>: an item of the same file and product gets its quantity raised by one;
  otherwise a new item of quantity 1 goes to the end.
\<close>

definition addToCart :: "print_file \<Rightarrow> print_product \<Rightarrow> cart_item list \<Rightarrow> cart_item list" where
  "addToCart file product cart =
     (case findIndex (\<lambda>item. ci_file_id item = pf_id file \<and> ci_product_id item = pp_id product) cart of
        Some existingIndex \<Rightarrow>
          cart[existingIndex :=
            (cart ! existingIndex)\<lparr>ci_quantity := ci_quantity (cart ! existingIndex) + 1\<rparr>]
      | None \<Rightarrow> cart @ [new_item file product])"

datatype js_error = TypeError | ReferenceError

text \<open>
  \<open>updateQuantity(index, delta)\<close>: the buttons of a row pass the row's index and +1 or -1.
  Reading \<open>.quantity\<close> of a missing element throws, before \<open>setCart\<close>. An item whose
  quantity falls to zero or below is spliced out.
\<close>

definition updateQuantity :: "nat \<Rightarrow> int \<Rightarrow> cart_item list \<Rightarrow> js_error + cart_item list" where
  "updateQuantity index delta cart =
     (if index < length cart then
        (let newCart = cart[index := (cart ! index)\<lparr>ci_quantity := ci_quantity (cart ! index) + delta\<rparr>]
         in if ci_quantity (newCart ! index) \<le> 0 then Inr (splice1 index newCart) else Inr newCart)
      else Inl TypeError)"

definition removeItem :: "nat \<Rightarrow> cart_item list \<Rightarrow> cart_item list" where
  "removeItem index cart = splice1 index cart"

text \<open>
  \<open>handleAddToCart\<close> of the gallery page works on the cart saved in local storage
  (\<open>None\<close>: nothing saved, or not parsable) and writes the result back.
\<close>

definition handleAddToCart ::
  "print_file \<Rightarrow> print_product \<Rightarrow> cart_item list option \<Rightarrow> cart_item list option" where
  "handleAddToCart file product saved =
     (let cart = (case saved of None \<Rightarrow> [] | Some c \<Rightarrow> c)
      in Some
        (case findIndex (\<lambda>item. ci_file_id item = pf_id file \<and> ci_product_id item = pp_id product) cart of
           Some existingIndex \<Rightarrow>
             cart[existingIndex :=
               (cart ! existingIndex)\<lparr>ci_quantity := ci_quantity (cart ! existingIndex) + 1\<rparr>]
         | None \<Rightarrow> cart @ [new_item file product]))"

text \<open>The cart operations, and a sequence of them run from a cart; an operation that throws leaves the cart as it was.\<close>

datatype cart_op =
    AddToCart print_file print_product
  | HandleAddToCart print_file print_product
  | UpdateQuantity nat int
  | RemoveItem nat

fun apply_cart_op :: "cart_op \<Rightarrow> cart_item list \<Rightarrow> cart_item list" where
  "apply_cart_op (AddToCart f p) cart = addToCart f p cart"
| "apply_cart_op (HandleAddToCart f p) cart =
     (case handleAddToCart f p (Some cart) of Some c \<Rightarrow> c | None \<Rightarrow> cart)"
| "apply_cart_op (UpdateQuantity i d) cart =
     (case updateQuantity i d cart of Inr c \<Rightarrow> c | Inl _ \<Rightarrow> cart)"
| "apply_cart_op (RemoveItem i) cart = removeItem i cart"

fun run_cart_ops :: "cart_op list \<Rightarrow> cart_item list \<Rightarrow> cart_item list" where
  "run_cart_ops [] cart = cart"
| "run_cart_ops (c # cs) cart = run_cart_ops cs (apply_cart_op c cart)"

definition item_key :: "cart_item \<Rightarrow> string \<times> string" where
  "item_key item = (ci_file_id item, ci_product_id item)"

definition cart_ok :: "cart_item list \<Rightarrow> bool" where
  "cart_ok cart = (list_all (\<lambda>item. 1 \<le> ci_quantity item) cart \<and> distinct (map item_key cart))"

text \<open>
  \<open>cart.reduce((sum, item) => sum + (item.price * item.quantity), 0)\<close>: from the left, each
  product and each partial sum rounded to a double.
\<close>

definition subtotal :: "cart_item list \<Rightarrow> rat" where
  "subtotal cart =
     foldl (\<lambda>sum item. js_add sum (js_mul (ci_price item) (of_int (ci_quantity item)))) 0 cart"

text \<open>\<open>subtotal + SHIPPING_FEE\<close>\<close>

definition total :: "cart_item list \<Rightarrow> rat" where
  "total cart = js_add (subtotal cart) SHIPPING_FEE"



section \<open>PrintOrderCart: checkout\<close>

text \<open>
  \<open>Number.prototype.toFixed(2)\<close> on a number below 10^21 in magnitude: the hundredth nearest
  to the exact value of the double, a tie going away from zero, two decimals always, the sign
  of a negative number kept.
\<close>

definition toFixed2 :: "rat \<Rightarrow> string" where
  "toFixed2 x =
     (let n = nat \<lfloor>\<bar>x\<bar> * 100 + 1 / 2\<rfloor>
      in (if x < 0 then ''-'' else []) @ show_nat (n div 100) @ ''.'' @
         [digit_char (n mod 100 div 10), digit_char (n mod 10)])"

datatype step = CartStep | DetailsStep | ConfirmStep

record customerDetails =
  cd_email :: string
  cd_name :: string
  cd_line1 :: string
  cd_line2 :: string
  cd_city :: string
  cd_county :: string
  cd_postcode :: string
  cd_phone :: string

definition required :: "customerDetails \<Rightarrow> (string \<times> string) list" where
  "required cd =
     [(''email'', cd_email cd), (''name'', cd_name cd), (''line1'', cd_line1 cd),
      (''city'', cd_city cd), (''postcode'', cd_postcode cd), (''phone'', cd_phone cd)]"

text \<open>\<open>field.replace('line1', 'address')\<close> on the six field names.\<close>

definition field_label :: "string \<Rightarrow> string" where
  "field_label field = (if field = ''line1'' then ''address'' else field)"

text \<open>
  \<open>validateDetails\<close>: \<open>None\<close> is \<open>true\<close>; otherwise the toast shown before returning
  \<open>false\<close>. The first blank required field, then the email without an at sign, then the
  postcode shorter than five.
\<close>

definition validateDetails :: "customerDetails \<Rightarrow> toast option" where
  "validateDetails cd =
     (case find (\<lambda>(field, v). trim v = []) (required cd) of
        Some (field, v) \<Rightarrow> Some (ToastError (''Please fill in '' @ field_label field))
      | None \<Rightarrow>
          if CHR ''@'' \<notin> set (cd_email cd) then Some (ToastError ''Please enter a valid email'')
          else if length (cd_postcode cd) < 5
          then Some (ToastError ''Please enter a valid UK postcode'')
          else None)"

record delivery_address =
  da_name :: string
  da_line1 :: string
  da_line2 :: string
  da_city :: string
  da_county :: string
  da_postcode :: string
  da_phone :: string

record order_item =
  oi_file_id :: string
  oi_file_name :: string
  oi_product_id :: string
  oi_product_name :: string
  oi_size :: string
  oi_paper_type :: string
  oi_quantity :: int
  oi_price :: rat

record order_request =
  or_share_token :: string
  or_customer_email :: string
  or_delivery_address :: delivery_address
  or_items :: "order_item list"
  or_shipping :: rat

definition orderData :: "string \<Rightarrow> customerDetails \<Rightarrow> cart_item list \<Rightarrow> order_request" where
  "orderData shareToken cd cart =
     \<lparr>or_share_token = shareToken,
      or_customer_email = cd_email cd,
      or_delivery_address =
        \<lparr>da_name = cd_name cd, da_line1 = cd_line1 cd, da_line2 = cd_line2 cd,
         da_city = cd_city cd, da_county = cd_county cd, da_postcode = cd_postcode cd,
         da_phone = cd_phone cd\<rparr>,
      or_items = map (\<lambda>item.
        \<lparr>oi_file_id = ci_file_id item, oi_file_name = ci_file_name item,
         oi_product_id = ci_product_id item, oi_product_name = ci_product_name item,
         oi_size = ci_size item, oi_paper_type = ci_paper_type item,
         oi_quantity = ci_quantity item, oi_price = ci_price item\<rparr>) cart,
      or_shipping = SHIPPING_FEE\<rparr>"

record print_order_cart =
  poc_cart :: "cart_item list"
  poc_step :: step
  poc_customerDetails :: customerDetails
  poc_loading :: bool

text \<open>\<open>err.detail || 'Failed to submit order'\<close>\<close>

definition detail_or :: "string option \<Rightarrow> string \<Rightarrow> string" where
  "detail_or d dflt = (case d of None \<Rightarrow> dflt | Some m \<Rightarrow> if m = [] then dflt else m)"

text \<open>
  \<open>submitOrder\<close>, with the answer to its POST: the new state, the request it sent (none
  when the details did not validate) and the toasts. The body of an answer is read as JSON
  (its \<open>detail\<close> field, when it has one); a body that does not parse lands in \<open>catch\<close>.
\<close>

definition submitOrder ::
  "string \<Rightarrow> print_order_cart \<Rightarrow> string option fetched \<Rightarrow>
   print_order_cart \<times> order_request option \<times> toast list" where
  "submitOrder shareToken st r =
     (case validateDetails (poc_customerDetails st) of
        Some t \<Rightarrow> (st, None, [t])
      | None \<Rightarrow>
          (let req = orderData shareToken (poc_customerDetails st) (poc_cart st);
               failed = (st\<lparr>poc_loading := False\<rparr>, Some req, [ToastError ''Failed to submit order''])
           in case r of
                FetchFailed m \<Rightarrow> failed
              | Response status b \<Rightarrow>
                  (case b of
                     BadJson m \<Rightarrow> failed
                   | Json d \<Rightarrow>
                       if ok status then
                         (st\<lparr>poc_cart := [], poc_step := ConfirmStep, poc_loading := False\<rparr>,
                          Some req, [ToastSuccess ''Order submitted successfully!''])
                       else
                         (st\<lparr>poc_loading := False\<rparr>, Some req,
                          [ToastError (detail_or d ''Failed to submit order'')]))))"

text \<open>
  What the cart step shows: the empty-cart message, or else the rows with their buttons, the
  totals (subtotal, shipping, total, each through \<open>formatPrice\<close>), the minimum-order message
  with the minimum and the amount still needed, and the continue button with its
  \<open>disabled\<close> flag.
\<close>

datatype cart_control =
    CartEmptyMessage
  | MinusButton nat
  | PlusButton nat
  | TrashButton nat
  | Totals string string string
  | MinimumOrderMessage string string
  | ContinueToCheckout bool

definition render_cart_step :: "cart_item list \<Rightarrow> cart_control list" where
  "render_cart_step cart =
     (if cart = [] then [CartEmptyMessage]
      else
        concat (map (\<lambda>index. [MinusButton index, PlusButton index, TrashButton index])
          [0..<length cart]) @
        [Totals (toFixed2 (subtotal cart)) (toFixed2 SHIPPING_FEE) (toFixed2 (total cart))] @
        (if subtotal cart < MIN_ORDER
         then [MinimumOrderMessage (toFixed2 MIN_ORDER)
                 (toFixed2 (js_sub MIN_ORDER (subtotal cart)))]
         else []) @
        [ContinueToCheckout (subtotal cart < MIN_ORDER)])"

text \<open>
  The events of the dialog. A click counts only on a control that is shown and not disabled;
  a submit comes with the answer to its request.
\<close>

datatype cart_event =
    ClickMinus nat
  | ClickPlus nat
  | ClickTrash nat
  | ClickContinue
  | ClickBack
  | ChangeDetails customerDetails
  | ClickSubmit "string option fetched"
  | ClickClose

fun cart_dialog ::
  "string \<Rightarrow> cart_event \<Rightarrow> print_order_cart \<Rightarrow> print_order_cart \<times> order_request option" where
  "cart_dialog tok (ClickMinus i) st =
     (if poc_step st = CartStep \<and> MinusButton i \<in> set (render_cart_step (poc_cart st))
      then (st\<lparr>poc_cart := (case updateQuantity i (- 1) (poc_cart st) of
                               Inr c \<Rightarrow> c | Inl _ \<Rightarrow> poc_cart st)\<rparr>, None)
      else (st, None))"
| "cart_dialog tok (ClickPlus i) st =
     (if poc_step st = CartStep \<and> PlusButton i \<in> set (render_cart_step (poc_cart st))
      then (st\<lparr>poc_cart := (case updateQuantity i 1 (poc_cart st) of
                               Inr c \<Rightarrow> c | Inl _ \<Rightarrow> poc_cart st)\<rparr>, None)
      else (st, None))"
| "cart_dialog tok (ClickTrash i) st =
     (if poc_step st = CartStep \<and> TrashButton i \<in> set (render_cart_step (poc_cart st))
      then (st\<lparr>poc_cart := removeItem i (poc_cart st)\<rparr>, None)
      else (st, None))"
| "cart_dialog tok ClickContinue st =
     (if poc_step st = CartStep \<and> ContinueToCheckout False \<in> set (render_cart_step (poc_cart st))
      then (st\<lparr>poc_step := DetailsStep\<rparr>, None)
      else (st, None))"
| "cart_dialog tok ClickBack st =
     (if poc_step st = DetailsStep then (st\<lparr>poc_step := CartStep\<rparr>, None) else (st, None))"
| "cart_dialog tok (ChangeDetails cd) st =
     (if poc_step st = DetailsStep then (st\<lparr>poc_customerDetails := cd\<rparr>, None) else (st, None))"
| "cart_dialog tok (ClickSubmit r) st =
     (if poc_step st = DetailsStep \<and> \<not> poc_loading st
      then (case submitOrder tok st r of (st', req, ts) \<Rightarrow> (st', req))
      else (st, None))"
| "cart_dialog tok ClickClose st =
     (if poc_step st = ConfirmStep then (st\<lparr>poc_step := CartStep\<rparr>, None) else (st, None))"

text \<open>A session of the dialog: the final state and the order requests sent on the way.\<close>

fun cart_session ::
  "string \<Rightarrow> cart_event list \<Rightarrow> print_order_cart \<Rightarrow> print_order_cart \<times> order_request list" where
  "cart_session tok [] st = (st, [])"
| "cart_session tok (e # es) st =
     (case cart_dialog tok e st of
        (st', req) \<Rightarrow>
          (case cart_session tok es st' of
             (st'', reqs) \<Rightarrow> (st'', (case req of None \<Rightarrow> [] | Some q \<Rightarrow> [q]) @ reqs)))"

text \<open>The dialog as it mounts: the cart step, with the cart saved in local storage, if any.\<close>

definition mounted :: "cart_item list option \<Rightarrow> print_order_cart" where
  "mounted saved =
     \<lparr>poc_cart = (case saved of None \<Rightarrow> [] | Some c \<Rightarrow> c),
      poc_step = CartStep,
      poc_customerDetails =
        \<lparr>cd_email = [], cd_name = [], cd_line1 = [], cd_line2 = [], cd_city = [],
         cd_county = [], cd_postcode = [], cd_phone = []\<rparr>,
      poc_loading = False\<rparr>"

text \<open>The subtotal of the items of an order request, summed as the cart sums its own.\<close>

definition request_subtotal :: "order_request \<Rightarrow> rat" where
  "request_subtotal req =
     foldl (\<lambda>sum i. js_add sum (js_mul (oi_price i) (of_int (oi_quantity i)))) 0 (or_items req)"

text \<open>In the details step the cart's subtotal is not below the minimum order.\<close>

definition checkout_inv :: "print_order_cart \<Rightarrow> bool" where
  "checkout_inv st = (poc_step st = DetailsStep \<longrightarrow> \<not> subtotal (poc_cart st) < MIN_ORDER)"

section \<open>Orders on the back end\<close>

datatype order_status = Pending | Paid | Processing | Shipped | Completed | Cancelled



section \<open>formatBytes, in FolderManager and in DashboardHome\<close>

text \<open>
  \<open>Math.log(bytes) / Math.log(k)\<close>: the language leaves the value of \<open>Math.log\<close> to the
  implementation, as an approximation of the natural logarithm. The quotient is therefore a
  parameter of the two functions, \<open>log_ratio bytes\<close>, the number the engine computes for a
  byte count; \<open>Math.floor\<close> of it is the index \<open>i\<close>, a whole number of either sign.
\<close>

text \<open>
  \<open>parseFloat((bytes / Math.pow(k, i)).toFixed(2))\<close> as \<open>+\<close> prints it, for a whole byte
  count below 2^53 and a quotient below 10^21: the quotient (exact in binary, \<open>k\<close> being a
  power of two) rounded to hundredths, a tie going up, then written without trailing zeros.
  The number of hundredths of \<open>bytes / k^i\<close> is the floor of \<open>100 * bytes / k^i + 1/2\<close>,
  computed in whole numbers; a negative \<open>i\<close> multiplies.
\<close>

definition hundredths :: "nat \<Rightarrow> nat \<Rightarrow> int \<Rightarrow> nat" where
  "hundredths bytes k i =
     (if 0 \<le> i then (200 * bytes + k ^ nat i) div (2 * k ^ nat i)
      else 100 * bytes * k ^ nat (- i))"

definition show_hundredths :: "nat \<Rightarrow> string" where
  "show_hundredths n =
     show_nat (n div 100) @
     (if n mod 100 = 0 then []
      else ''.'' @ [digit_char (n mod 100 div 10)] @
           (if n mod 10 = 0 then [] else [digit_char (n mod 10)]))"

text \<open>
  \<open>sizes[i]\<close> inside a string concatenation: below zero and past the end it reads
  \<open>undefined\<close>.
\<close>

definition at_index :: "string list \<Rightarrow> int \<Rightarrow> string" where
  "at_index sizes i = (if 0 \<le> i \<and> i < int (length sizes) then sizes ! nat i else ''undefined'')"

definition sizes_FolderManager :: "string list" where
  "sizes_FolderManager = [''Bytes'', ''KB'', ''MB'', ''GB'']"

definition sizes_DashboardHome :: "string list" where
  "sizes_DashboardHome = [''Bytes'', ''KB'', ''MB'', ''GB'', ''TB'']"

definition formatBytes_FolderManager :: "(nat \<Rightarrow> real) \<Rightarrow> nat \<Rightarrow> string" where
  "formatBytes_FolderManager log_ratio bytes =
     (if bytes = 0 then ''0 Bytes''
      else
        (let k = 1024;
             sizes = sizes_FolderManager;
             i = \<lfloor>log_ratio bytes\<rfloor>
         in show_hundredths (hundredths bytes k i) @ '' '' @ at_index sizes i))"

definition formatBytes_DashboardHome :: "(nat \<Rightarrow> real) \<Rightarrow> nat \<Rightarrow> string" where
  "formatBytes_DashboardHome log_ratio bytes =
     (if bytes = 0 then ''0 Bytes''
      else
        (let k = 1024;
             sizes = sizes_DashboardHome;
             i = \<lfloor>log_ratio bytes\<rfloor>
         in show_hundredths (hundredths bytes k i) @ '' '' @ at_index sizes i))"

text \<open>
  What is asked of the engine's \<open>Math.log\<close>: on the whole byte counts that a double holds
  exactly (from 1, below 2^53), the quotient it gives is within 2^-44 of the logarithm to base
  1024. Doubles carry 53 bits; an engine whose logarithm is good to a few units in the last
  place is well within this.
\<close>

definition log_accurate :: "(nat \<Rightarrow> real) \<Rightarrow> bool" where
  "log_accurate log_ratio =
     (\<forall>bytes. 1 \<le> bytes \<and> bytes < 2 ^ 53 \<longrightarrow>
        \<bar>log_ratio bytes - log 1024 (real bytes)\<bar> \<le> 1 / 2 ^ 44)"

text \<open>The quotient taken exactly: the logarithm to base 1024.\<close>

definition exact_log_ratio :: "nat \<Rightarrow> real" where
  "exact_log_ratio bytes = log 1024 (real bytes)"

section \<open>Batch upload: FolderManager and GalleryPage\<close>

record upload_file =
  uf_name :: string
  uf_data :: string

text \<open>
  How one XMLHttpRequest ends: \<open>onload\<close> with a status and a response text (read with
  \<open>JSON.parse\<close>; \<open>error.detail\<close> may be missing), or \<open>onerror\<close>.
\<close>

datatype xhr_result = XhrLoad nat "string option body" | XhrError

definition xhr_failed :: "xhr_result \<Rightarrow> bool" where
  "xhr_failed r = (case r of XhrLoad status b \<Rightarrow> \<not> ok status | XhrError \<Rightarrow> True)"

text \<open>The toast of a failed upload in \<open>onDrop\<close>; a missing detail prints as \<open>undefined\<close>.\<close>

definition onDrop_error_toast :: "upload_file \<Rightarrow> xhr_result \<Rightarrow> toast" where
  "onDrop_error_toast file r =
     (case r of
        XhrLoad status (Json d) \<Rightarrow>
          ToastError (''Failed to upload '' @ uf_name file @ '': '' @
            (case d of Some m \<Rightarrow> m | None \<Rightarrow> ''undefined''))
      | XhrLoad status (BadJson m) \<Rightarrow> ToastError (''Failed to upload '' @ uf_name file)
      | XhrError \<Rightarrow> ToastError (''Failed to upload '' @ uf_name file))"

text \<open>
  The loop of \<open>onDrop\<close>. The back end is a parameter: \<open>upload srv folder file\<close> is what the
  request for \<open>file\<close> ends with and the back end after it. The loop carries the count of
  completed uploads, the toasts shown and the requests sent so far. A failed upload rejects
  its promise, the \<open>catch\<close> is empty, and the loop goes on to the next file.
\<close>

fun onDrop_loop ::
  "('srv \<Rightarrow> string \<Rightarrow> upload_file \<Rightarrow> xhr_result \<times> 'srv) \<Rightarrow> string \<Rightarrow> upload_file list \<Rightarrow>
   nat \<times> toast list \<times> (upload_file \<times> xhr_result) list \<times> 'srv \<Rightarrow>
   nat \<times> toast list \<times> (upload_file \<times> xhr_result) list \<times> 'srv" where
  "onDrop_loop upload folder [] acc = acc"
| "onDrop_loop upload folder (file # rest) (completed, toasts, sent, srv) =
     (case upload srv folder file of
        (r, srv') \<Rightarrow>
          onDrop_loop upload folder rest
            (case r of
               XhrLoad status b \<Rightarrow>
                 if 200 \<le> status \<and> status < 300
                 then (completed + 1, toasts, sent @ [(file, r)], srv')
                 else (completed, toasts @ [onDrop_error_toast file r], sent @ [(file, r)], srv')
             | XhrError \<Rightarrow>
                 (completed, toasts @ [onDrop_error_toast file r], sent @ [(file, r)], srv')))"

text \<open>
  \<open>onDrop\<close>: without a current folder it stops with a toast; otherwise it runs the loop and
  reports \<open>Uploaded completed/total file(s)\<close>.
\<close>

definition onDrop ::
  "('srv \<Rightarrow> string \<Rightarrow> upload_file \<Rightarrow> xhr_result \<times> 'srv) \<Rightarrow> string option \<Rightarrow> upload_file list \<Rightarrow>
   'srv \<Rightarrow> nat \<times> toast list \<times> (upload_file \<times> xhr_result) list \<times> 'srv" where
  "onDrop upload currentFolderId acceptedFiles srv =
     (case currentFolderId of
        None \<Rightarrow> (0, [ToastError ''Please select a folder first''], [], srv)
      | Some folder \<Rightarrow>
          if folder = [] then (0, [ToastError ''Please select a folder first''], [], srv)
          else
            (case onDrop_loop upload folder acceptedFiles (0, [], [], srv) of
               (completed, toasts, sent, srv') \<Rightarrow>
                 (completed,
                  toasts @ [ToastSuccess (''Uploaded '' @ show_nat completed @ ''/'' @
                     show_nat (length acceptedFiles) @ '' file(s)'')],
                  sent, srv')))"

definition fetch_failed :: "'a fetched \<Rightarrow> bool" where
  "fetch_failed r = (case r of Response status b \<Rightarrow> \<not> ok status | FetchFailed m \<Rightarrow> True)"

text \<open>
  The loop of \<open>handleUpload\<close> on the gallery page, with \<open>fetch\<close>: a response that is not ok
  and a thrown error both show the same toast, and the loop goes on.
\<close>

fun handleUpload_loop ::
  "('srv \<Rightarrow> string \<Rightarrow> string \<Rightarrow> upload_file \<Rightarrow> 'a fetched \<times> 'srv) \<Rightarrow> string \<Rightarrow> string \<Rightarrow>
   upload_file list \<Rightarrow>
   nat \<times> toast list \<times> (upload_file \<times> 'a fetched) list \<times> 'srv \<Rightarrow>
   nat \<times> toast list \<times> (upload_file \<times> 'a fetched) list \<times> 'srv" where
  "handleUpload_loop upload token folderId [] acc = acc"
| "handleUpload_loop upload token folderId (file # rest) (uploaded, toasts, sent, srv) =
     (case upload srv token folderId file of
        (r, srv') \<Rightarrow>
          handleUpload_loop upload token folderId rest
            (case r of
               Response status b \<Rightarrow>
                 if ok status then (uploaded + 1, toasts, sent @ [(file, r)], srv')
                 else (uploaded, toasts @ [ToastError (''Failed to upload '' @ uf_name file)],
                       sent @ [(file, r)], srv')
             | FetchFailed m \<Rightarrow>
                 (uploaded, toasts @ [ToastError (''Failed to upload '' @ uf_name file)],
                  sent @ [(file, r)], srv')))"

text \<open>
  \<open>handleUpload\<close>: nothing for an empty selection; the folder is the current one or else the
  gallery's; the success toast only when something was uploaded.
\<close>

definition handleUpload ::
  "('srv \<Rightarrow> string \<Rightarrow> string \<Rightarrow> upload_file \<Rightarrow> 'a fetched \<times> 'srv) \<Rightarrow> string \<Rightarrow> string option \<Rightarrow>
   gallery_data option \<Rightarrow> upload_file list \<Rightarrow> 'srv \<Rightarrow>
   nat \<times> toast list \<times> (upload_file \<times> 'a fetched) list \<times> 'srv" where
  "handleUpload upload token currentFolderId gallery files srv =
     (if files = [] then (0, [], [], srv)
      else
        (let folderId =
               (if truthy currentFolderId then currentFolderId
                else map_option gal_folder_id gallery)
         in if \<not> truthy folderId then (0, [ToastError ''Cannot upload here''], [], srv)
            else
              (case handleUpload_loop upload token (the folderId) files (0, [], [], srv) of
                 (uploaded, toasts, sent, srv') \<Rightarrow>
                   (uploaded,
                    toasts @
                    (if uploaded > 0
                     then [ToastSuccess (''Uploaded '' @ show_nat uploaded @ '' file(s)'')]
                     else []),
                    sent, srv'))))"

text \<open>
  The back end on its own: what it answers to the requests for the files of a batch, asked
  one after the other whatever the earlier answers were, and the back end after them. The
  two upload loops are compared with this run.
\<close>

fun answers :: "('srv \<Rightarrow> 'f \<Rightarrow> 'r \<times> 'srv) \<Rightarrow> 'f list \<Rightarrow> 'srv \<Rightarrow> 'r list \<times> 'srv" where
  "answers request [] srv = ([], srv)"
| "answers request (f # rest) srv =
     (case request srv f of
        (r, srv') \<Rightarrow> (case answers request rest srv' of (rs, srv'') \<Rightarrow> (r # rs, srv'')))"

text \<open>
  Modelled from the spec: the upload handler of the back end (\<open>POST /api/files/upload\<close>) is
  not among the sources. The specification says that each file of a batch succeeds or fails on
  its own and that a successful upload returns the created file record; here a file that is
  corrupted is refused with an error and leaves no record, any other file gets its record.
\<close>

definition server_upload ::
  "(upload_file \<Rightarrow> bool) \<Rightarrow> (string \<times> string) list \<Rightarrow> string \<Rightarrow> upload_file \<Rightarrow>
   xhr_result \<times> (string \<times> string) list" where
  "server_upload corrupted records folder file =
     (if corrupted file then (XhrLoad 400 (Json (Some ''Invalid file'')), records)
      else (XhrLoad 200 (Json None), records @ [(folder, uf_name file)]))"

section \<open>OrdersManager: setting the status of an order\<close>

text \<open>The items of the status select, the same six for every order whatever its status.\<close>

definition status_options :: "string list" where
  "status_options =
     [''pending'', ''paid'', ''processing'', ''shipped'', ''completed'', ''cancelled'']"

definition status_select_items :: "string \<Rightarrow> string list" where
  "status_select_items current = status_options"

record http_request =
  rq_method :: string
  rq_url :: string
  rq_headers :: "(string \<times> string) list"
  rq_body :: "(string \<times> string) list"

datatype orders_effect = Toast toast | FetchOrders | FetchStats

text \<open>
  \<open>updateStatus(orderId, newStatus)\<close>, with the answer to its request: the PUT it sends (under
  the API root \<open>api\<close>, with the admin's bearer token) and what it does then. An ok answer
  gives the success toast and reloads orders and statistics; any other answer, and a thrown
  error, give the error toast.
\<close>

definition updateStatus ::
  "string \<Rightarrow> string \<Rightarrow> string \<Rightarrow> string \<Rightarrow> 'a fetched \<Rightarrow> http_request \<times> orders_effect list" where
  "updateStatus api token orderId newStatus r =
     (\<lparr>rq_method = ''PUT'',
       rq_url = api @ ''/orders/'' @ orderId @ ''/status'',
       rq_headers = [(''Authorization'', ''Bearer '' @ token), (''Content-Type'', ''application/json'')],
       rq_body = [(''status'', newStatus)]\<rparr>,
      (case r of
         FetchFailed m \<Rightarrow> [Toast (ToastError ''Failed to update order'')]
       | Response status b \<Rightarrow>
           if ok status
           then [Toast (ToastSuccess (''Order updated to '' @ newStatus)), FetchOrders, FetchStats]
           else [Toast (ToastError ''Failed to update order'')]))"

text \<open>
  The convention of the specification, in its words: linear, pending to paid to processing to
  shipped to completed, with cancelled reachable from any state that is not terminal.
\<close>

definition conventional_chain :: "string list" where
  "conventional_chain = [''pending'', ''paid'', ''processing'', ''shipped'', ''completed'']"

definition terminal :: "string \<Rightarrow> bool" where
  "terminal s = (s = ''completed'' \<or> s = ''cancelled'')"

definition conventional_step :: "string \<Rightarrow> string \<Rightarrow> bool" where
  "conventional_step s s' =
     ((s, s') \<in> set (zip conventional_chain (tl conventional_chain))
      \<or> (s \<in> set status_options \<and> \<not> terminal s \<and> s' = ''cancelled''))"

section \<open>ActivityLogs: clearing the log\<close>

record activity_logs =
  al_logs :: "string list"
  al_total :: nat
  al_page :: nat
  al_loading :: bool
  al_showClearConfirm :: bool
  al_searchTerm :: string

text \<open>
  The names in scope in the body of the component: what the module imports and declares, and
  what the component declares, in the order of the file.
\<close>

definition module_bindings :: "string list" where
  "module_bindings =
     [''useState'', ''useEffect'', ''toast'', ''motion'', ''Activity'', ''Eye'', ''Download'',
      ''Upload'', ''Archive'', ''Trash2'', ''RefreshCw'', ''ChevronLeft'', ''ChevronRight'',
      ''Search'', ''Button'', ''AlertDialog'', ''AlertDialogAction'', ''AlertDialogCancel'',
      ''AlertDialogContent'', ''AlertDialogDescription'', ''AlertDialogFooter'',
      ''AlertDialogHeader'', ''AlertDialogTitle'', ''useAuth'', ''BACKEND_URL'', ''API'',
      ''ACTION_ICONS'', ''ACTION_LABELS'', ''ACTION_COLORS'', ''ActivityLogs'']"

definition component_bindings :: "string list" where
  "component_bindings =
     [''token'', ''logs'', ''setLogs'', ''total'', ''setTotal'', ''page'', ''setPage'',
      ''loading'', ''setLoading'', ''showClearConfirm'', ''setShowClearConfirm'',
      ''searchTerm'', ''setSearchTerm'', ''limit'', ''headers'', ''fetchLogs'',
      ''handleSearch'', ''formatDate'', ''totalPages'']"

text \<open>Reading an identifier: one that nothing binds is a \<open>ReferenceError\<close>.\<close>

definition resolve_identifier :: "string \<Rightarrow> js_error + string" where
  "resolve_identifier name =
     (if name \<in> set (module_bindings @ component_bindings) then Inr name else Inl ReferenceError)"

text \<open>\<open>onClick={clearLogs}\<close> on the action of the confirmation dialog.\<close>

definition clear_all_onClick :: string where
  "clear_all_onClick = ''clearLogs''"

text \<open>
  The statements that stand after \<open>handleSearch\<close>, where the body of the handler would be:
  the DELETE, on an ok answer the toast and the reset of logs, total and page, on a thrown
  error the error toast, and the dialog closed either way.
\<close>

definition clear_statements :: "activity_logs \<Rightarrow> 'a fetched \<Rightarrow> activity_logs \<times> toast list" where
  "clear_statements st r =
     (case r of
        FetchFailed m \<Rightarrow> (st\<lparr>al_showClearConfirm := False\<rparr>, [ToastError ''Failed to clear logs''])
      | Response status b \<Rightarrow>
          if ok status
          then (st\<lparr>al_logs := [], al_total := 0, al_page := 0, al_showClearConfirm := False\<rparr>,
                [ToastSuccess ''Activity logs cleared''])
          else (st\<lparr>al_showClearConfirm := False\<rparr>, []))"

text \<open>
  Confirming the dialog: the click reads the name its \<open>onClick\<close> gives; were the name
  bound to a function of these statements, they would run.
\<close>

definition confirm_clear_all :: "activity_logs \<Rightarrow> 'a fetched \<Rightarrow> js_error + activity_logs \<times> toast list" where
  "confirm_clear_all st r =
     (case resolve_identifier clear_all_onClick of
        Inl e \<Rightarrow> Inl e
      | Inr name \<Rightarrow> Inr (clear_statements st r))"

section \<open>Share tokens\<close>

lemma toLowerChar_az09: "is_az09 c \<Longrightarrow> toLowerChar c = c"
  by (auto simp: is_az09_def toLowerChar_def Let_def)

lemma cleanToken_chars: "c \<in> set (cleanToken t) \<Longrightarrow> is_az09 c"
  by (simp add: cleanToken_def)

lemma cleanToken_fixed: "\<forall>c \<in> set t. is_az09 c \<Longrightarrow> cleanToken t = t"
  unfolding cleanToken_def toLowerCase_def
  by (induction t) (auto simp: toLowerChar_az09)

lemma cleanToken_idem: "cleanToken (cleanToken t) = cleanToken t"
  by (rule cleanToken_fixed) (simp add: cleanToken_chars)

lemma cleanToken_gina: "cleanToken ''Gina Mark 30-10-21'' = ''ginamark301021''"
  by code_simp

lemma cleanToken_ginamark: "cleanToken ''ginamark301021'' = ''ginamark301021''"
  by code_simp

lemma resolveShare_clean: "resolveShare srv (cleanToken t) = resolveShare srv t"
  by (simp add: resolveShare_def cleanToken_idem)

lemma server_createShare_clean:
  "server_createShare srv fid (cleanToken t) p = server_createShare srv fid t p"
  by (simp add: server_createShare_def cleanToken_idem)

lemma az09_codes:
  "\<forall>n \<in> set ([97..<123] @ [48..<58]).
     char_of (n::nat) \<in> set ''abcdefghijklmnopqrstuvwxyz0123456789''"
  by code_simp

lemma is_az09_iff: "is_az09 c \<longleftrightarrow> c \<in> set ''abcdefghijklmnopqrstuvwxyz0123456789''"
proof
  assume "c \<in> set ''abcdefghijklmnopqrstuvwxyz0123456789''"
  then show "is_az09 c" by (auto simp: is_az09_def)
next
  assume a: "is_az09 c"
  define n where "n = (of_char c :: nat)"
  have c: "c = char_of n" by (simp add: n_def)
  from a have r: "(97 \<le> n \<and> n < 123) \<or> (48 \<le> n \<and> n < 58)"
    by (auto simp: is_az09_def n_def Let_def)
  have "set ([97..<123] @ [48..<58]) = {97..<123} \<union> {48..<58::nat}"
    by (simp only: set_append set_upt)
  with r have "n \<in> set ([97..<123] @ [48..<58])"
    by (simp only: Un_iff atLeastLessThan_iff)
  with az09_codes show "c \<in> set ''abcdefghijklmnopqrstuvwxyz0123456789''"
    unfolding c by blast
qed

text \<open>
  C2. The normalisation of a submitted share token (lowercase, then drop every character
  outside a-z and 0-9) yields only lowercase letters and digits, is idempotent, and sends
  "Gina Mark 30-10-21" and "ginamark301021" to the same token "ginamark301021". The admin
  client applies it to the token it posts and to the link it previews; the back end as
  specified applies it before creation and before lookup, so a token and its normalised form
  create and resolve identically, and the two variants resolve to the same share.
\<close>

theorem share_token_normalization:
  "(\<forall>c \<in> set (cleanToken t). c \<in> set ''abcdefghijklmnopqrstuvwxyz0123456789'')
   \<and> cleanToken (cleanToken t) = cleanToken t
   \<and> cleanToken ''Gina Mark 30-10-21'' = ''ginamark301021''
   \<and> cleanToken ''ginamark301021'' = ''ginamark301021''
   \<and> (createShare ns = PostShares f tk p \<longrightarrow> tk = cleanToken (ns_token ns))
   \<and> share_link_preview ''Gina Mark 30-10-21'' = share_link_preview ''ginamark301021''
   \<and> server_createShare srv fid t pm = server_createShare srv fid (cleanToken t) pm
   \<and> resolveShare srv t = resolveShare srv (cleanToken t)
   \<and> resolveShare srv ''Gina Mark 30-10-21'' = resolveShare srv ''ginamark301021''"
proof -
  have chars: "\<forall>c \<in> set (cleanToken t). c \<in> set ''abcdefghijklmnopqrstuvwxyz0123456789''"
    using cleanToken_chars is_az09_iff by blast
  have post: "createShare ns = PostShares f tk p \<longrightarrow> tk = cleanToken (ns_token ns)"
    by (auto simp: createShare_def split: if_splits)
  have prev: "share_link_preview ''Gina Mark 30-10-21'' = share_link_preview ''ginamark301021''"
    by (simp only: share_link_preview_def cleanToken_gina cleanToken_ginamark)
  have res: "resolveShare srv ''Gina Mark 30-10-21'' = resolveShare srv ''ginamark301021''"
    by (simp only: resolveShare_def cleanToken_gina cleanToken_ginamark)
  show ?thesis
    using chars cleanToken_idem cleanToken_gina cleanToken_ginamark post prev res
      server_createShare_clean resolveShare_clean
    by simp
qed

text \<open>
  The theorem at the token "Gina Mark 30-10-21": the admin client posts "ginamark301021"
  for it, and on a back end holding that share both spellings resolve to it.
\<close>

theorem share_token_normalization_witness:
  "createShare \<lparr>ns_folder_id = ''f1'', ns_token = ''Gina Mark 30-10-21'', ns_permission = ''read''\<rparr>
     = PostShares ''f1'' ''ginamark301021'' ''read''
   \<and> set (cleanToken ''Gina Mark 30-10-21'') \<subseteq> set ''abcdefghijklmnopqrstuvwxyz0123456789''
   \<and> resolveShare
        \<lparr>srv_folders = [''f1''],
         srv_shares = [\<lparr>share_folder_id = ''f1'', share_token = ''ginamark301021'',
                        share_permission = Read\<rparr>]\<rparr>
        ''Gina Mark 30-10-21''
      = Inr \<lparr>share_folder_id = ''f1'', share_token = ''ginamark301021'', share_permission = Read\<rparr>"
  using share_token_normalization
    [of "''Gina Mark 30-10-21''"
        "\<lparr>ns_folder_id = ''f1'', ns_token = ''Gina Mark 30-10-21'', ns_permission = ''read''\<rparr>"
        "''f1''" "''ginamark301021''" "''read''"
        "\<lparr>srv_folders = [''f1''],
          srv_shares = [\<lparr>share_folder_id = ''f1'', share_token = ''ginamark301021'',
                         share_permission = Read\<rparr>]\<rparr>"
        "''f1''" Read]
  by (simp add: createShare_def trim_def is_whitespace_def resolveShare_def subset_iff)

section \<open>Failed token resolution on the gallery page\<close>

text \<open>
  C3. Two public gallery requests whose token resolution fails, for whatever reasons (any
  two responses that are not ok, with any bodies, arriving in any two page states), leave
  the page in the same visible state: the "Gallery Not Found" view with the text "This
  gallery link may have expired or been removed." The view does not depend on the cause.
\<close>

theorem gallery_failure_indistinguishable:
  "\<not> ok s1 \<Longrightarrow> \<not> ok s2 \<Longrightarrow>
   render (fetchGallery st1 (Response s1 b1)) = render (fetchGallery st2 (Response s2 b2))
   \<and> render (fetchGallery st1 (Response s1 b1)) =
       ErrorView ''Gallery Not Found'' ''This gallery link may have expired or been removed.''"
  by (simp add: fetchGallery_def render_def truthy_def)

text \<open>The theorem at a 404 and a 500 answer, on the page as it is first mounted.\<close>

theorem gallery_failure_indistinguishable_witness:
  "\<not> ok 404 \<and> \<not> ok 500
   \<and> render (fetchGallery initial_page (Response 404 (BadJson ''Not Found'')))
     = render (fetchGallery initial_page
         (Response 500
            (Json \<lparr>gal_folder_id = ''f'', gal_folder_name = ''n'', gal_permission = ''full''\<rparr>)))
   \<and> render (fetchGallery initial_page (Response 404 (BadJson ''Not Found'')))
     = ErrorView ''Gallery Not Found'' ''This gallery link may have expired or been removed.''"
proof -
  have a: "\<not> ok 404" and b: "\<not> ok 500" by (simp_all add: ok_def)
  show ?thesis using a b gallery_failure_indistinguishable [OF a b] by blast
qed

section \<open>Permission tiers\<close>

lemma upload_offered_iff:
  "\<not> gp_loading st \<Longrightarrow> \<not> truthy (gp_error st) \<Longrightarrow>
   upload_offered st \<longleftrightarrow>
     canEdit (gp_gallery st) \<and> (imageFiles st = [] \<or> \<not> gp_selectionMode st)"
  by (auto simp: upload_offered_def render_def imageFiles_def is_upload_control_def)

lemma upload_enabled_iff:
  "\<not> gp_loading st \<Longrightarrow> \<not> truthy (gp_error st) \<Longrightarrow>
   upload_enabled st \<longleftrightarrow> upload_offered st \<and> \<not> gp_uploading st"
  by (auto simp: upload_enabled_def upload_offered_def render_def imageFiles_def
      is_upload_control_def)

lemma favourites_offered_iff:
  "\<not> gp_loading st \<Longrightarrow> \<not> truthy (gp_error st) \<Longrightarrow>
   favourites_offered st \<longleftrightarrow>
     canEdit (gp_gallery st) \<and> imageFiles st \<noteq> [] \<and> \<not> gp_selectionMode st"
  by (auto simp: favourites_offered_def render_def)

lemma canEdit_Some:
  "canEdit (Some d) \<longleftrightarrow> gal_permission d = ''edit'' \<or> gal_permission d = ''full''"
  by (simp add: canEdit_def)

lemma gate_tiers:
  "resolveShare srv t = Inr s \<Longrightarrow>
     (share_permission s = Read \<longrightarrow> gallery_request srv t Upload = Inl Forbidden) \<and>
     (share_permission s = Edit \<longrightarrow>
        gallery_request srv t Upload = Inr s \<and> gallery_request srv t Delete = Inl Forbidden) \<and>
     (share_permission s = Full \<longrightarrow>
        gallery_request srv t Upload = Inr s \<and> gallery_request srv t Delete = Inr s)"
  by (simp add: gallery_request_def)

lemma page_event_gallery: "gp_gallery (handle_page_event e st) = gp_gallery st"
  by (cases e)
    (simp_all add: enterFavouritesMode_def exitSelectionMode_def selectAllFiles_def
      toggleSelectFile_def)

lemma select_favourites_shown_canEdit:
  "select_favourites_btn \<in> set (controls st) \<Longrightarrow> canEdit (gp_gallery st)"
  by (auto simp: controls_def render_def split: if_splits)

lemma page_event_favouritesMode:
  "(gp_favouritesMode st \<longrightarrow> canEdit (gp_gallery st)) \<Longrightarrow>
   gp_favouritesMode (handle_page_event e st) \<longrightarrow> canEdit (gp_gallery (handle_page_event e st))"
proof (cases e)
  case ClickSelectFavourites
  assume "gp_favouritesMode st \<longrightarrow> canEdit (gp_gallery st)"
  then show ?thesis
    using select_favourites_shown_canEdit [of st]
    by (simp add: ClickSelectFavourites enterFavouritesMode_def)
qed (simp_all add: exitSelectionMode_def selectAllFiles_def toggleSelectFile_def)

lemma page_events_favouritesMode:
  "(gp_favouritesMode st \<longrightarrow> canEdit (gp_gallery st)) \<Longrightarrow>
   gp_favouritesMode (page_events es st) \<longrightarrow> canEdit (gp_gallery (page_events es st))"
proof (induction es arbitrary: st)
  case Nil
  then show ?case by simp
next
  case (Cons e es)
  from Cons.prems have "gp_favouritesMode (handle_page_event e st) \<longrightarrow> canEdit (gp_gallery (handle_page_event e st))"
    by (rule page_event_favouritesMode)
  then show ?case by (simp add: Cons.IH)
qed

lemma page_events_gallery: "gp_gallery (page_events es st) = gp_gallery st"
  by (induction es arbitrary: st) (simp_all add: page_event_gallery)

lemma save_favourites_shown_mode: "save_favourites_shown st \<Longrightarrow> gp_favouritesMode st"
  by (auto simp: save_favourites_shown_def controls_def render_def split: if_splits)

lemma resolved_page_save_favourites:
  assumes "ok status" and "save_favourites_shown (page_events es (fetchGallery initial_page (Response status (Json d))))"
  shows "gal_permission d = ''edit'' \<or> gal_permission d = ''full''"
proof -
  let ?st0 = "fetchGallery initial_page (Response status (Json d))"
  from assms(1) have g: "gp_gallery ?st0 = Some d" and f: "\<not> gp_favouritesMode ?st0"
    by (simp_all add: fetchGallery_def initial_page_def)
  from f have "gp_favouritesMode ?st0 \<longrightarrow> canEdit (gp_gallery ?st0)" by simp
  then have "gp_favouritesMode (page_events es ?st0) \<longrightarrow> canEdit (gp_gallery (page_events es ?st0))"
    by (rule page_events_favouritesMode)
  with save_favourites_shown_mode [OF assms(2)] have "canEdit (gp_gallery (page_events es ?st0))"
    by simp
  then show ?thesis by (simp add: page_events_gallery g canEdit_def)
qed

text \<open>
  C1 (as amended). The back end as specified answers an upload under a read share with
  \<open>Forbidden\<close>, accepts it under edit and full, and accepts a delete under full that it
  refuses under edit. On the gallery page, once the gallery has resolved, the upload buttons
  are shown exactly when the permission is edit or full and the page either has no photos or
  is not in selection mode; the button that starts the favourites selection is shown exactly
  when the permission is edit or full, the page has photos and is not in selection mode. So
  both are offered only under edit or full. An upload button that is shown is enabled unless
  an upload is running. The button that saves the favourites is shown only in favourites mode,
  and on a page that has resolved its gallery no sequence of clicks, navigation and reloads
  brings it up unless the permission is edit or full.
\<close>

theorem permission_tiers_bound_operations:
  assumes "resolveShare srv t = Inr s"
    and "gp_gallery st = Some d" and "\<not> gp_loading st" and "\<not> truthy (gp_error st)"
  shows "(share_permission s = Read \<longrightarrow> gallery_request srv t Upload = Inl Forbidden)
       \<and> (share_permission s = Edit \<longrightarrow>
            gallery_request srv t Upload = Inr s \<and> gallery_request srv t Delete = Inl Forbidden)
       \<and> (share_permission s = Full \<longrightarrow>
            gallery_request srv t Upload = Inr s \<and> gallery_request srv t Delete = Inr s)
       \<and> (upload_offered st \<longleftrightarrow>
            (gal_permission d = ''edit'' \<or> gal_permission d = ''full'')
            \<and> (imageFiles st = [] \<or> \<not> gp_selectionMode st))
       \<and> (favourites_offered st \<longleftrightarrow>
            (gal_permission d = ''edit'' \<or> gal_permission d = ''full'')
            \<and> imageFiles st \<noteq> [] \<and> \<not> gp_selectionMode st)
       \<and> (upload_offered st \<or> favourites_offered st \<longrightarrow>
            gal_permission d = ''edit'' \<or> gal_permission d = ''full'')
       \<and> (upload_enabled st \<longleftrightarrow> upload_offered st \<and> \<not> gp_uploading st)
       \<and> (ok status
            \<and> save_favourites_shown
                 (page_events es (fetchGallery initial_page (Response status (Json d'))))
            \<longrightarrow> gal_permission d' = ''edit'' \<or> gal_permission d' = ''full'')"
proof -
  have up: "upload_offered st \<longleftrightarrow>
      (gal_permission d = ''edit'' \<or> gal_permission d = ''full'')
      \<and> (imageFiles st = [] \<or> \<not> gp_selectionMode st)"
    using upload_offered_iff [OF assms(3,4)] canEdit_Some [of d] assms(2) by simp
  have fav: "favourites_offered st \<longleftrightarrow>
      (gal_permission d = ''edit'' \<or> gal_permission d = ''full'')
      \<and> imageFiles st \<noteq> [] \<and> \<not> gp_selectionMode st"
    using favourites_offered_iff [OF assms(3,4)] canEdit_Some [of d] assms(2) by simp
  have sav: "ok status
      \<and> save_favourites_shown
           (page_events es (fetchGallery initial_page (Response status (Json d'))))
      \<longrightarrow> gal_permission d' = ''edit'' \<or> gal_permission d' = ''full''"
    using resolved_page_save_favourites [of status es d'] by blast
  from gate_tiers [OF assms(1)] up fav upload_enabled_iff [OF assms(3,4)] sav
  show ?thesis by blast
qed

text \<open>
  The theorem on a back end with one edit share, and a page showing one photo outside
  selection mode: the upload is accepted, the delete refused, and both controls are shown;
  after a click on the favourites selection the save button is up.
\<close>

theorem permission_tiers_bound_operations_witness:
  "resolveShare
     \<lparr>srv_folders = [''f1''],
      srv_shares = [\<lparr>share_folder_id = ''f1'', share_token = ''lisatara'', share_permission = Edit\<rparr>]\<rparr>
     ''lisatara''
   = Inr \<lparr>share_folder_id = ''f1'', share_token = ''lisatara'', share_permission = Edit\<rparr>
   \<and> gallery_request
     \<lparr>srv_folders = [''f1''],
      srv_shares = [\<lparr>share_folder_id = ''f1'', share_token = ''lisatara'', share_permission = Edit\<rparr>]\<rparr>
     ''lisatara'' Delete = Inl Forbidden
   \<and> upload_offered
     \<lparr>gp_gallery = Some \<lparr>gal_folder_id = ''f1'', gal_folder_name = ''Lisa'', gal_permission = ''edit''\<rparr>,
      gp_folders = [], gp_files = [\<lparr>gf_id = ''a'', gf_name = ''a.jpg'', gf_file_type = ''image''\<rparr>],
      gp_loading = False, gp_error = None, gp_selectionMode = False, gp_favouritesMode = False,
      gp_uploading = False, gp_selectedFiles = [],
      gp_savingFavourites = False\<rparr>
   \<and> favourites_offered
     \<lparr>gp_gallery = Some \<lparr>gal_folder_id = ''f1'', gal_folder_name = ''Lisa'', gal_permission = ''edit''\<rparr>,
      gp_folders = [], gp_files = [\<lparr>gf_id = ''a'', gf_name = ''a.jpg'', gf_file_type = ''image''\<rparr>],
      gp_loading = False, gp_error = None, gp_selectionMode = False, gp_favouritesMode = False,
      gp_uploading = False, gp_selectedFiles = [],
      gp_savingFavourites = False\<rparr>
   \<and> save_favourites_shown
     (page_events
        [ContentFetched [] [\<lparr>gf_id = ''a'', gf_name = ''a.jpg'', gf_file_type = ''image''\<rparr>],
         ClickSelectFavourites]
        (fetchGallery initial_page
           (Response 200
              (Json \<lparr>gal_folder_id = ''f1'', gal_folder_name = ''Lisa'', gal_permission = ''edit''\<rparr>))))"
proof -
  let ?srv = "\<lparr>srv_folders = [''f1''],
      srv_shares = [\<lparr>share_folder_id = ''f1'', share_token = ''lisatara'', share_permission = Edit\<rparr>]\<rparr>"
  let ?s = "\<lparr>share_folder_id = ''f1'', share_token = ''lisatara'', share_permission = Edit\<rparr>"
  let ?d = "\<lparr>gal_folder_id = ''f1'', gal_folder_name = ''Lisa'', gal_permission = ''edit''\<rparr>"
  let ?st = "\<lparr>gp_gallery = Some ?d,
      gp_folders = [], gp_files = [\<lparr>gf_id = ''a'', gf_name = ''a.jpg'', gf_file_type = ''image''\<rparr>],
      gp_loading = False, gp_error = None, gp_selectionMode = False, gp_favouritesMode = False,
      gp_uploading = False, gp_selectedFiles = [],
      gp_savingFavourites = False\<rparr>"
  have tok: "cleanToken ''lisatara'' = ''lisatara''" by code_simp
  have r: "resolveShare ?srv ''lisatara'' = Inr ?s" by (simp add: resolveShare_def tok)
  have g: "gp_gallery ?st = Some ?d" by simp
  have l: "\<not> gp_loading ?st" by simp
  have e: "\<not> truthy (gp_error ?st)" by (simp add: truthy_def)
  have i: "imageFiles ?st \<noteq> []" by (simp add: imageFiles_def)
  have sv: "save_favourites_shown
     (page_events
        [ContentFetched [] [\<lparr>gf_id = ''a'', gf_name = ''a.jpg'', gf_file_type = ''image''\<rparr>],
         ClickSelectFavourites]
        (fetchGallery initial_page (Response 200 (Json ?d))))"
    by (simp add: save_favourites_shown_def controls_def render_def fetchGallery_def
        initial_page_def ok_def truthy_def imageFiles_def canEdit_def enterFavouritesMode_def)
  from permission_tiers_bound_operations [OF r g l e] r i sv show ?thesis by simp
qed

text \<open>
  The claim as first stated fails in selection mode: under an edit share, with a photo on the
  page and selection mode on, neither upload nor favourites is offered.
\<close>

theorem permission_tiers_counterexample:
  "canEdit (Some \<lparr>gal_folder_id = ''f1'', gal_folder_name = ''Lisa'', gal_permission = ''edit''\<rparr>)
   \<and> \<not> upload_offered
       \<lparr>gp_gallery = Some \<lparr>gal_folder_id = ''f1'', gal_folder_name = ''Lisa'', gal_permission = ''edit''\<rparr>,
        gp_folders = [], gp_files = [\<lparr>gf_id = ''a'', gf_name = ''a.jpg'', gf_file_type = ''image''\<rparr>],
        gp_loading = False, gp_error = None, gp_selectionMode = True, gp_favouritesMode = False,
        gp_uploading = False, gp_selectedFiles = [],
      gp_savingFavourites = False\<rparr>
   \<and> \<not> favourites_offered
       \<lparr>gp_gallery = Some \<lparr>gal_folder_id = ''f1'', gal_folder_name = ''Lisa'', gal_permission = ''edit''\<rparr>,
        gp_folders = [], gp_files = [\<lparr>gf_id = ''a'', gf_name = ''a.jpg'', gf_file_type = ''image''\<rparr>],
        gp_loading = False, gp_error = None, gp_selectionMode = True, gp_favouritesMode = False,
        gp_uploading = False, gp_selectedFiles = [],
      gp_savingFavourites = False\<rparr>
   \<and> render
       \<lparr>gp_gallery = Some \<lparr>gal_folder_id = ''f1'', gal_folder_name = ''Lisa'', gal_permission = ''edit''\<rparr>,
        gp_folders = [], gp_files = [\<lparr>gf_id = ''a'', gf_name = ''a.jpg'', gf_file_type = ''image''\<rparr>],
        gp_loading = False, gp_error = None, gp_selectionMode = True, gp_favouritesMode = False,
        gp_uploading = False, gp_selectedFiles = [],
      gp_savingFavourites = False\<rparr>
     = GalleryView [select_all_btn, download_selected_btn True, cancel_select_btn]"
  by (simp add: upload_offered_def favourites_offered_def render_def truthy_def imageFiles_def
      canEdit_def is_upload_control_def)

section \<open>The cart invariant\<close>

lemma findIndex_Some:
  "findIndex P xs = Some i \<Longrightarrow> i < length xs \<and> P (xs ! i)"
proof (induction xs arbitrary: i)
  case Nil
  then show ?case by simp
next
  case (Cons x xs)
  then show ?case by (auto split: if_splits)
qed

lemma findIndex_None: "findIndex P xs = None \<Longrightarrow> \<forall>x \<in> set xs. \<not> P x"
  by (induction xs) (auto split: if_splits)

lemma map_key_update:
  "i < length cart \<Longrightarrow>
   map item_key (cart[i := (cart ! i)\<lparr>ci_quantity := q\<rparr>]) = map item_key cart"
proof -
  assume i: "i < length cart"
  have k: "item_key ((cart ! i)\<lparr>ci_quantity := q\<rparr>) = map item_key cart ! i"
    using i by (simp add: item_key_def)
  have "map item_key (cart[i := (cart ! i)\<lparr>ci_quantity := q\<rparr>])
      = (map item_key cart)[i := map item_key cart ! i]"
    unfolding map_update k ..
  then show ?thesis
    by (simp only: list_update_id)
qed

lemma splice1_set: "set (splice1 i xs) \<subseteq> set xs"
proof
  fix x assume "x \<in> set (splice1 i xs)"
  then have "x \<in> set (take i xs) \<or> x \<in> set (drop (Suc i) xs)"
    by (simp add: splice1_def)
  then show "x \<in> set xs"
    using in_set_takeD in_set_dropD by fast
qed

lemma splice1_Cons_Suc: "splice1 (Suc j) (x # xs) = x # splice1 j xs"
  by (simp add: splice1_def)

lemma splice1_Cons_0: "splice1 0 (x # xs) = xs"
  by (simp add: splice1_def)

lemma splice1_distinct: "distinct (map f xs) \<Longrightarrow> distinct (map f (splice1 i xs))"
proof (induction xs arbitrary: i)
  case Nil
  show ?case by (simp add: splice1_def)
next
  case (Cons x xs)
  show ?case
  proof (cases i)
    case 0
    with Cons.prems show ?thesis by (simp add: splice1_Cons_0)
  next
    case (Suc j)
    from Cons.prems have d: "distinct (map f xs)" and n: "f x \<notin> f ` set xs" by simp_all
    have "f ` set (splice1 j xs) \<subseteq> f ` set xs"
      using splice1_set [of j xs] by (rule image_mono)
    with n have "f x \<notin> f ` set (splice1 j xs)" by blast
    with Cons.IH [OF d, of j] show ?thesis by (simp add: Suc splice1_Cons_Suc)
  qed
qed

lemma splice1_ok: "cart_ok cart \<Longrightarrow> cart_ok (splice1 i cart)"
proof -
  assume ok: "cart_ok cart"
  then have "distinct (map item_key (splice1 i cart))"
    by (simp add: cart_ok_def splice1_distinct)
  moreover have "list_all (\<lambda>item. 1 \<le> ci_quantity item) (splice1 i cart)"
    using ok splice1_set [of i cart] by (auto simp: cart_ok_def list_all_iff)
  ultimately show ?thesis by (simp add: cart_ok_def)
qed

lemma addToCart_ok: "cart_ok cart \<Longrightarrow> cart_ok (addToCart f p cart)"
proof (cases "findIndex (\<lambda>item. ci_file_id item = pf_id f \<and> ci_product_id item = pp_id p) cart")
  case None
  assume ok: "cart_ok cart"
  from findIndex_None [OF None] have "item_key (new_item f p) \<notin> set (map item_key cart)"
    by (auto simp: item_key_def new_item_def)
  with ok None show ?thesis
    by (simp add: addToCart_def cart_ok_def new_item_def)
next
  case (Some i)
  assume ok: "cart_ok cart"
  from findIndex_Some [OF Some] have i: "i < length cart" by simp
  from ok i have q: "1 \<le> ci_quantity (cart ! i)"
    by (simp add: cart_ok_def list_all_length)
  have "list_all (\<lambda>item. 1 \<le> ci_quantity item)
          (cart[i := (cart ! i)\<lparr>ci_quantity := ci_quantity (cart ! i) + 1\<rparr>])"
    using ok q i by (auto simp: cart_ok_def list_all_length nth_list_update)
  with ok i Some show ?thesis
    by (simp add: addToCart_def cart_ok_def map_key_update)
qed

lemma handleAddToCart_eq: "handleAddToCart f p (Some cart) = Some (addToCart f p cart)"
  by (simp add: handleAddToCart_def addToCart_def)

lemma updateQuantity_ok:
  assumes "cart_ok cart" and "updateQuantity i d cart = Inr c"
  shows "cart_ok c"
proof -
  from assms(2) have i: "i < length cart"
    by (auto simp: updateQuantity_def split: if_splits)
  let ?new = "cart[i := (cart ! i)\<lparr>ci_quantity := ci_quantity (cart ! i) + d\<rparr>]"
  have keys: "distinct (map item_key ?new)"
    using assms(1) i by (simp add: map_key_update cart_ok_def)
  show ?thesis
  proof (cases "ci_quantity (?new ! i) \<le> 0")
    case True
    with assms(2) i have c: "c = splice1 i ?new"
      by (simp add: updateQuantity_def Let_def)
    have "\<forall>x \<in> set (splice1 i ?new). 1 \<le> ci_quantity x"
    proof
      fix x assume "x \<in> set (splice1 i ?new)"
      then have "x \<in> set (take i ?new) \<or> x \<in> set (drop (Suc i) ?new)"
        by (simp add: splice1_def)
      then have "x \<in> set (take i cart) \<or> x \<in> set (drop (Suc i) cart)"
        by simp
      then have "x \<in> set cart" by (auto dest: in_set_takeD in_set_dropD)
      with assms(1) show "1 \<le> ci_quantity x" by (simp add: cart_ok_def list_all_iff)
    qed
    then have "list_all (\<lambda>item. 1 \<le> ci_quantity item) (splice1 i ?new)"
      by (simp add: list_all_iff)
    with keys show ?thesis
      by (simp add: c cart_ok_def splice1_distinct)
  next
    case False
    with assms(2) i have c: "c = ?new"
      by (simp add: updateQuantity_def Let_def)
    have "list_all (\<lambda>item. 1 \<le> ci_quantity item) ?new"
      using assms(1) False i by (auto simp: cart_ok_def list_all_length nth_list_update)
    with keys show ?thesis by (simp add: c cart_ok_def)
  qed
qed

lemma apply_cart_op_ok: "cart_ok cart \<Longrightarrow> cart_ok (apply_cart_op c cart)"
proof (cases c)
  case (AddToCart f p)
  assume "cart_ok cart"
  then show ?thesis by (simp add: AddToCart addToCart_ok)
next
  case (HandleAddToCart f p)
  assume "cart_ok cart"
  then show ?thesis by (simp add: HandleAddToCart handleAddToCart_eq addToCart_ok)
next
  case (UpdateQuantity i d)
  assume "cart_ok cart"
  then show ?thesis
    by (auto simp: UpdateQuantity split: sum.splits intro: updateQuantity_ok)
next
  case (RemoveItem i)
  assume "cart_ok cart"
  then show ?thesis by (simp add: RemoveItem removeItem_def splice1_ok)
qed

lemma run_cart_ops_ok: "cart_ok cart \<Longrightarrow> cart_ok (run_cart_ops cs cart)"
  by (induction cs arbitrary: cart) (simp_all add: apply_cart_op_ok)

lemma updateQuantity_drops:
  "i < length cart \<Longrightarrow> ci_quantity (cart ! i) + d \<le> 0 \<Longrightarrow>
   updateQuantity i d cart = Inr (take i cart @ drop (Suc i) cart)"
  by (simp add: updateQuantity_def Let_def splice1_def)

lemma addToCart_merges:
  "findIndex (\<lambda>item. ci_file_id item = pf_id f \<and> ci_product_id item = pp_id p) cart = Some i \<Longrightarrow>
   length (addToCart f p cart) = length cart \<and>
   ci_quantity (addToCart f p cart ! i) = ci_quantity (cart ! i) + 1"
  by (frule findIndex_Some) (simp add: addToCart_def)

text \<open>
  C9. After every finite sequence of \<open>addToCart\<close> (of the cart component or of the gallery
  page), \<open>updateQuantity\<close> and \<open>removeItem\<close> operations run from the empty cart, every
  item has quantity at least 1 and no two items share their file and product. Adding a file
  and product that is already in the cart raises the quantity of that item by one and adds no
  item; \<open>updateQuantity\<close> removes the item whose quantity would fall to zero or below.
\<close>

theorem cart_state_invariant:
  "(\<forall>item \<in> set (run_cart_ops cs []). 1 \<le> ci_quantity item)
   \<and> distinct (map (\<lambda>item. (ci_file_id item, ci_product_id item)) (run_cart_ops cs []))
   \<and> (findIndex (\<lambda>item. ci_file_id item = pf_id f \<and> ci_product_id item = pp_id p) cart = Some i
        \<longrightarrow> length (addToCart f p cart) = length cart
          \<and> ci_quantity (addToCart f p cart ! i) = ci_quantity (cart ! i) + 1)
   \<and> (j < length cart \<and> ci_quantity (cart ! j) + d \<le> 0
        \<longrightarrow> updateQuantity j d cart = Inr (take j cart @ drop (Suc j) cart))"
proof -
  have "cart_ok []" by (simp add: cart_ok_def)
  then have "cart_ok (run_cart_ops cs [])" by (rule run_cart_ops_ok)
  then have inv: "(\<forall>item \<in> set (run_cart_ops cs []). 1 \<le> ci_quantity item)
      \<and> distinct (map (\<lambda>item. (ci_file_id item, ci_product_id item)) (run_cart_ops cs []))"
    by (simp add: cart_ok_def list_all_iff item_key_def [abs_def])
  from inv addToCart_merges [of f p cart i] updateQuantity_drops [of j cart d]
  show ?thesis by blast
qed

text \<open>
  The theorem on a run: the same print added twice, a second product added from the gallery
  page, and the second row taken down by one leave one item of quantity 2.
\<close>

theorem cart_state_invariant_witness:
  "run_cart_ops
     [AddToCart \<lparr>pf_id = ''f1'', pf_name = ''a.jpg'', pf_thumbnail_url = ''/t/f1''\<rparr>
        \<lparr>pp_id = ''p1'', pp_name = ''6x4 Lustre'', pp_size = ''6x4'', pp_paper_type = ''lustre'', pp_price = 5\<rparr>,
      AddToCart \<lparr>pf_id = ''f1'', pf_name = ''a.jpg'', pf_thumbnail_url = ''/t/f1''\<rparr>
        \<lparr>pp_id = ''p1'', pp_name = ''6x4 Lustre'', pp_size = ''6x4'', pp_paper_type = ''lustre'', pp_price = 5\<rparr>,
      HandleAddToCart \<lparr>pf_id = ''f1'', pf_name = ''a.jpg'', pf_thumbnail_url = ''/t/f1''\<rparr>
        \<lparr>pp_id = ''p2'', pp_name = ''7x5 Matte'', pp_size = ''7x5'', pp_paper_type = ''matte'', pp_price = 7\<rparr>,
      UpdateQuantity 1 (- 1)] []
   = [\<lparr>ci_file_id = ''f1'', ci_file_name = ''a.jpg'', ci_file_thumbnail = ''/t/f1'',
       ci_product_id = ''p1'', ci_product_name = ''6x4 Lustre'', ci_size = ''6x4'',
       ci_paper_type = ''lustre'', ci_price = 5, ci_quantity = 2\<rparr>]
   \<and> distinct (map (\<lambda>item. (ci_file_id item, ci_product_id item))
       (run_cart_ops
     [AddToCart \<lparr>pf_id = ''f1'', pf_name = ''a.jpg'', pf_thumbnail_url = ''/t/f1''\<rparr>
        \<lparr>pp_id = ''p1'', pp_name = ''6x4 Lustre'', pp_size = ''6x4'', pp_paper_type = ''lustre'', pp_price = 5\<rparr>,
      AddToCart \<lparr>pf_id = ''f1'', pf_name = ''a.jpg'', pf_thumbnail_url = ''/t/f1''\<rparr>
        \<lparr>pp_id = ''p1'', pp_name = ''6x4 Lustre'', pp_size = ''6x4'', pp_paper_type = ''lustre'', pp_price = 5\<rparr>,
      HandleAddToCart \<lparr>pf_id = ''f1'', pf_name = ''a.jpg'', pf_thumbnail_url = ''/t/f1''\<rparr>
        \<lparr>pp_id = ''p2'', pp_name = ''7x5 Matte'', pp_size = ''7x5'', pp_paper_type = ''matte'', pp_price = 7\<rparr>,
      UpdateQuantity 1 (- 1)] []))"
proof -
  let ?f = "\<lparr>pf_id = ''f1'', pf_name = ''a.jpg'', pf_thumbnail_url = ''/t/f1''\<rparr>"
  let ?p1 = "\<lparr>pp_id = ''p1'', pp_name = ''6x4 Lustre'', pp_size = ''6x4'', pp_paper_type = ''lustre'', pp_price = 5\<rparr>"
  let ?p2 = "\<lparr>pp_id = ''p2'', pp_name = ''7x5 Matte'', pp_size = ''7x5'', pp_paper_type = ''matte'', pp_price = 7\<rparr>"
  let ?cs = "[AddToCart ?f ?p1, AddToCart ?f ?p1, HandleAddToCart ?f ?p2, UpdateQuantity 1 (- 1)]"
  have run: "run_cart_ops ?cs []
     = [\<lparr>ci_file_id = ''f1'', ci_file_name = ''a.jpg'', ci_file_thumbnail = ''/t/f1'',
       ci_product_id = ''p1'', ci_product_name = ''6x4 Lustre'', ci_size = ''6x4'',
       ci_paper_type = ''lustre'', ci_price = 5, ci_quantity = 2\<rparr>]"
    by (simp add: addToCart_def handleAddToCart_def updateQuantity_def new_item_def splice1_def)
  from cart_state_invariant [of ?cs] run show ?thesis by blast
qed

section \<open>Printing and rounding numbers\<close>

lemma show_nat_small: "n < 10 \<Longrightarrow> show_nat n = [digit_char n]"
  by (subst show_nat.simps) simp

lemma show_nat_large: "10 \<le> n \<Longrightarrow> show_nat n = show_nat (n div 10) @ [digit_char (n mod 10)]"
  by (subst show_nat.simps) simp

lemma digit_char_simps:
  "digit_char 0 = CHR ''0''" "digit_char 1 = CHR ''1''" "digit_char 2 = CHR ''2''"
  "digit_char 3 = CHR ''3''" "digit_char 4 = CHR ''4''" "digit_char 5 = CHR ''5''"
  "digit_char 6 = CHR ''6''" "digit_char 7 = CHR ''7''" "digit_char 8 = CHR ''8''"
  "digit_char 9 = CHR ''9''" "digit_char (Suc 0) = CHR ''1''"
  "digit_char (Suc (Suc 0)) = CHR ''2''" "digit_char (Suc (Suc (Suc 0))) = CHR ''3''"
  by code_simp+

lemma floor_log_0_iff: "1 < k \<Longrightarrow> floor_log k n = 0 \<longleftrightarrow> n < k"
  by (subst floor_log.simps) simp

lemma floor_log_le_iff: "1 < k \<Longrightarrow> floor_log k n \<le> j \<longleftrightarrow> n < k ^ Suc j"
proof (induction j arbitrary: n)
  case 0
  then show ?case by (simp add: floor_log_0_iff)
next
  case (Suc j)
  show ?case
  proof (cases "n < k")
    case True
    with Suc.prems have z: "floor_log k n = 0" by (simp add: floor_log_0_iff)
    have "k \<le> k ^ Suc (Suc j)"
      using Suc.prems by (intro self_le_power) simp_all
    with True have "n < k ^ Suc (Suc j)" by (rule less_le_trans)
    with z show ?thesis by simp
  next
    case False
    with Suc.prems have s: "floor_log k n = Suc (floor_log k (n div k))"
      by (subst floor_log.simps) simp
    have "n div k < k ^ Suc j \<longleftrightarrow> n < k ^ Suc j * k"
      using Suc.prems by (intro div_less_iff_less_mult) simp
    with Suc.IH [OF Suc.prems, of "n div k"] s show ?thesis
      by (simp add: mult.commute)
  qed
qed

lemma floor_log_eq: "1 < k \<Longrightarrow> k ^ j \<le> n \<Longrightarrow> n < k ^ Suc j \<Longrightarrow> floor_log k n = j"
proof -
  assume k: "1 < k" and lo: "k ^ j \<le> n" and hi: "n < k ^ Suc j"
  from hi have le: "floor_log k n \<le> j" using floor_log_le_iff [OF k, of n j] by blast
  have "j \<le> floor_log k n"
  proof (cases j)
    case 0
    then show ?thesis by simp
  next
    case (Suc i)
    from lo have "\<not> n < k ^ Suc i" by (simp add: Suc)
    then have "\<not> floor_log k n \<le> i" using floor_log_le_iff [OF k, of n i] by blast
    then show ?thesis by (simp add: Suc)
  qed
  with le show ?thesis by simp
qed

lemma floor_numeral_div_rat:
  "\<lfloor>(numeral a :: rat) / numeral b\<rfloor> = numeral a div numeral b"
  using floor_divide_of_int_eq [of "numeral a" "numeral b", where ?'a = rat] by simp

lemma exponent_eq_nonneg:
  assumes "2 ^ n \<le> x" and "x < 2 ^ Suc n"
  shows "exponent x = int n"
proof -
  have one: "(1::rat) \<le> 2 ^ n" by simp
  from one assms(1) have x1: "1 \<le> x" by (rule order_trans)
  have "(of_int (2 ^ n) :: rat) \<le> x" using assms(1) by simp
  then have "(2::int) ^ n \<le> \<lfloor>x\<rfloor>" by (simp only: le_floor_iff)
  moreover have "int (2 ^ n) = 2 ^ n" by simp
  ultimately have lo: "(2::nat) ^ n \<le> nat \<lfloor>x\<rfloor>"
    by linarith
  have "x < of_int (2 ^ Suc n)" using assms(2) by simp
  then have "\<lfloor>x\<rfloor> < 2 ^ Suc n" by (simp only: floor_less_iff)
  moreover have "int (2 ^ Suc n) = 2 ^ Suc n" and "(0::nat) < 2 ^ Suc n" by simp_all
  ultimately have hi: "nat \<lfloor>x\<rfloor> < 2 ^ Suc n"
    by linarith
  have "floor_log 2 (nat \<lfloor>x\<rfloor>) = n"
    using lo hi by (intro floor_log_eq) simp_all
  with x1 show ?thesis by (simp add: exponent_def)
qed

lemma exponent_eq_neg:
  assumes "1 / 2 ^ Suc n \<le> x" and "x < 1 / 2 ^ n"
  shows "exponent x = - int (Suc n)"
proof -
  have p: "(0::rat) < 1 / 2 ^ Suc n" by simp
  from p assms(1) have x0: "0 < x" by (rule less_le_trans)
  have "(1::rat) / 2 ^ n \<le> 1" by simp
  with assms(2) have x1: "x < 1" by (rule less_le_trans)
  from assms(1) x0 have up: "1 / x \<le> 2 ^ Suc n"
    by (simp add: field_simps)
  from assms(2) x0 have low: "2 ^ n < 1 / x"
    by (simp add: field_simps)
  have "1 / x \<le> of_int (2 ^ Suc n)" using up by simp
  then have c_le: "\<lceil>1 / x\<rceil> \<le> 2 ^ Suc n" by (simp only: ceiling_le_iff)
  have "of_int (2 ^ n) < 1 / x" using low by simp
  then have c_gt: "2 ^ n < \<lceil>1 / x\<rceil>" by (simp only: less_ceiling_iff)
  have lo: "(2::nat) ^ n \<le> nat \<lceil>1 / x\<rceil> - 1"
  proof -
    have "int (2 ^ n) = 2 ^ n" by simp
    with c_gt show ?thesis by linarith
  qed
  have hi: "nat \<lceil>1 / x\<rceil> - 1 < 2 ^ Suc n"
  proof -
    have "int (2 ^ Suc n) = 2 ^ Suc n" and "(0::int) < 2 ^ n" by simp_all
    with c_le c_gt show ?thesis by linarith
  qed
  have "floor_log 2 (nat \<lceil>1 / x\<rceil> - 1) = n"
    using lo hi by (intro floor_log_eq) simp_all
  with x1 show ?thesis by (simp add: exponent_def)
qed

text \<open>The exponent is the one its bounds name.\<close>

lemma exponent_eq:
  assumes "pow2 e \<le> x" and "x < pow2 (e + 1)"
  shows "exponent x = e"
proof (cases "0 \<le> e")
  case True
  then have "pow2 e = 2 ^ nat e" and "pow2 (e + 1) = 2 ^ Suc (nat e)"
    by (simp_all add: pow2_def nat_add_distrib)
  with assms have "exponent x = int (nat e)"
    by (intro exponent_eq_nonneg) simp_all
  with True show ?thesis by simp
next
  case False
  then obtain n where e: "e = - int (Suc n)"
    by (metis negD not_le)
  have a: "pow2 e = 1 / 2 ^ Suc n"
    by (simp add: pow2_def e nat_add_distrib)
  have b: "pow2 (e + 1) = 1 / 2 ^ n"
    by (cases n) (simp_all add: pow2_def e nat_add_distrib)
  from assms have "exponent x = - int (Suc n)"
    unfolding a b by (rule exponent_eq_neg)
  with e show ?thesis by simp
qed

text \<open>Rounding a positive number whose exponent is known.\<close>

lemma round64_eq:
  assumes "0 < x" and "pow2 e \<le> x" and "x < pow2 (e + 1)"
  shows "round64 x = of_int (round_half_even (x / pow2 (e - 52))) * pow2 (e - 52)"
  using assms exponent_eq [OF assms(2,3)] by (simp add: round64_def Let_def)

lemmas round64_eval = pow2_def round_half_even_def Let_def floor_numeral_div_rat

text \<open>
  The numbers of the examples. 0.2 and 4.8 are not doubles; the doubles next to them are
  3602879701896397 / 2^54 and 5404319552844595 / 2^50. Three times the first rounds up to
  0.6000000000000001, three times the second rounds down to 14.399999999999999, and their sum
  rounds to 14.999999999999998, which is 15 - 2^-49.
\<close>

lemma round64_fifth: "round64 (1 / 5) = 3602879701896397 / 18014398509481984"
  by (subst round64_eq [where e = "- 3"]) (simp_all add: round64_eval)

lemma round64_24_fifths: "round64 (24 / 5) = 5404319552844595 / 1125899906842624"
  by (subst round64_eq [where e = 2]) (simp_all add: round64_eval)

lemma round64_3_fifths:
  "round64 (3602879701896397 / 18014398509481984 * 3) = 5404319552844596 / 9007199254740992"
  by (subst round64_eq [where e = "- 1"]) (simp_all add: round64_eval)

lemma round64_72_fifths:
  "round64 (5404319552844595 / 1125899906842624 * 3) = 8106479329266892 / 562949953421312"
  by (subst round64_eq [where e = 3]) (simp_all add: round64_eval)

lemma round64_3_fifths_again:
  "round64 (5404319552844596 / 9007199254740992) = 5404319552844596 / 9007199254740992"
  by (subst round64_eq [where e = "- 1"]) (simp_all add: round64_eval)

lemma round64_15_less:
  "round64 (5404319552844596 / 9007199254740992 + 8106479329266892 / 562949953421312)
   = 8444249301319679 / 562949953421312"
  by (subst round64_eq [where e = 3]) (simp_all add: round64_eval)

lemma round64_whole:
  "round64 3 = 3" "round64 12 = 12" "round64 15 = 15" "round64 (29 / 2) = 29 / 2"
  "round64 (35 / 2) = 35 / 2"
  by (subst round64_eq [where e = 1], simp_all add: round64_eval,
      subst round64_eq [where e = 3], simp_all add: round64_eval,
      subst round64_eq [where e = 3], simp_all add: round64_eval,
      subst round64_eq [where e = 3], simp_all add: round64_eval,
      subst round64_eq [where e = 4], simp_all add: round64_eval)

section \<open>Order totals and the minimum order\<close>



lemma round64_0: "round64 0 = 0"
  by (simp add: round64_def)



lemma request_subtotal_orderData: "request_subtotal (orderData tok cd cart) = subtotal cart"
  by (simp add: request_subtotal_def orderData_def subtotal_def foldl_map)

lemma submitOrder_request:
  "submitOrder tok st r = (st', Some req, ts) \<Longrightarrow>
   req = orderData tok (poc_customerDetails st) (poc_cart st)"
  by (auto simp: submitOrder_def Let_def split: option.splits fetched.splits body.splits if_splits)

lemma toFixed2_MIN_ORDER: "toFixed2 MIN_ORDER = ''15.00''"
  by code_simp





lemma subtotal_three_at_4:
  "subtotal
     [\<lparr>ci_file_id = ''f1'', ci_file_name = ''a.jpg'', ci_file_thumbnail = ''/t/f1'',
       ci_product_id = ''p1'', ci_product_name = ''6x4 Lustre'', ci_size = ''6x4'',
       ci_paper_type = ''lustre'', ci_price = 4, ci_quantity = 3\<rparr>] = 12"
  by (simp add: subtotal_def js_add_def js_mul_def round64_whole)

lemma subtotal_three_at_5:
  "subtotal
     [\<lparr>ci_file_id = ''f1'', ci_file_name = ''a.jpg'', ci_file_thumbnail = ''/t/f1'',
       ci_product_id = ''p1'', ci_product_name = ''6x4 Lustre'', ci_size = ''6x4'',
       ci_paper_type = ''lustre'', ci_price = 5, ci_quantity = 3\<rparr>] = 15"
  by (simp add: subtotal_def js_add_def js_mul_def round64_whole)

text \<open>
  Three prints at 0.20 and three at 4.80, the prices being the doubles that 0.2 and 4.8 parse
  to: the cart's subtotal is 14.999999999999998, that is 15 - 2^-49.
\<close>

lemma subtotal_fifths:
  "subtotal
     [\<lparr>ci_file_id = ''f1'', ci_file_name = ''a.jpg'', ci_file_thumbnail = ''/t/f1'',
       ci_product_id = ''p1'', ci_product_name = ''Wallet'', ci_size = ''3x2'',
       ci_paper_type = ''lustre'', ci_price = round64 (1 / 5), ci_quantity = 3\<rparr>,
      \<lparr>ci_file_id = ''f1'', ci_file_name = ''a.jpg'', ci_file_thumbnail = ''/t/f1'',
       ci_product_id = ''p2'', ci_product_name = ''7x5 Lustre'', ci_size = ''7x5'',
       ci_paper_type = ''lustre'', ci_price = round64 (24 / 5), ci_quantity = 3\<rparr>]
   = 8444249301319679 / 562949953421312"
  by (simp only: subtotal_def foldl.simps cart_item.select_convs of_int_numeral js_add_def
      js_mul_def round64_fifth round64_24_fifths round64_3_fifths round64_72_fifths add_0_left
      round64_3_fifths_again round64_15_less)



lemma continue_enabled_iff:
  "ContinueToCheckout False \<in> set (render_cart_step cart)
   \<longleftrightarrow> cart \<noteq> [] \<and> \<not> subtotal cart < MIN_ORDER"
  by (auto simp: render_cart_step_def)

lemma continue_disabled:
  "cart \<noteq> [] \<Longrightarrow> subtotal cart < MIN_ORDER \<Longrightarrow>
   ContinueToCheckout True \<in> set (render_cart_step cart)
   \<and> MinimumOrderMessage ''15.00'' (toFixed2 (js_sub 15 (subtotal cart)))
       \<in> set (render_cart_step cart)"
  by (simp add: render_cart_step_def toFixed2_MIN_ORDER) (simp add: MIN_ORDER_def)

lemma submitOrder_step:
  "submitOrder tok st r = (st', req, ts) \<Longrightarrow>
   (poc_step st' = poc_step st \<and> poc_cart st' = poc_cart st) \<or> poc_step st' = ConfirmStep"
  by (auto simp: submitOrder_def Let_def split: option.splits fetched.splits body.splits if_splits)

lemma cart_dialog_inv:
  assumes "checkout_inv st" and "cart_dialog tok e st = (st', req)"
  shows "checkout_inv st'"
proof (cases e)
  case (ClickSubmit r)
  show ?thesis
  proof (cases "poc_step st = DetailsStep \<and> \<not> poc_loading st")
    case True
    obtain s q ts where sub: "submitOrder tok st r = (s, q, ts)"
      by (cases "submitOrder tok st r") auto
    with True assms(2) ClickSubmit have "st' = s" by simp
    with submitOrder_step [OF sub] assms(1) show ?thesis
      by (auto simp: checkout_inv_def)
  next
    case False
    with assms ClickSubmit show ?thesis by auto
  qed
next
  case ClickContinue
  with assms show ?thesis
    by (auto simp: checkout_inv_def continue_enabled_iff split: if_splits)
qed (use assms in \<open>auto simp: checkout_inv_def split: if_splits\<close>)

lemma cart_dialog_request:
  assumes "checkout_inv st" and "cart_dialog tok e st = (st', Some req)"
  shows "\<not> request_subtotal req < MIN_ORDER"
proof (cases e)
  case (ClickSubmit r)
  with assms(2) have d: "poc_step st = DetailsStep"
    by (auto split: if_splits)
  obtain s q ts where sub: "submitOrder tok st r = (s, q, ts)"
    by (cases "submitOrder tok st r") auto
  with assms(2) ClickSubmit d have "q = Some req"
    by (auto split: if_splits)
  with sub have "req = orderData tok (poc_customerDetails st) (poc_cart st)"
    by (simp add: submitOrder_request)
  with assms(1) d show ?thesis
    by (simp add: request_subtotal_orderData checkout_inv_def)
qed (use assms in \<open>auto split: if_splits\<close>)

lemma cart_session_requests:
  "checkout_inv st \<Longrightarrow> req \<in> set (snd (cart_session tok es st)) \<Longrightarrow>
   \<not> request_subtotal req < MIN_ORDER"
proof (induction es arbitrary: st)
  case Nil
  then show ?case by simp
next
  case (Cons e es)
  obtain st' q where d: "cart_dialog tok e st = (st', q)"
    by (cases "cart_dialog tok e st") auto
  obtain st'' reqs where s: "cart_session tok es st' = (st'', reqs)"
    by (cases "cart_session tok es st'") auto
  from Cons.prems(1) d have inv': "checkout_inv st'" by (rule cart_dialog_inv)
  from Cons.prems(2) d s have "q = Some req \<or> req \<in> set reqs"
    by (auto split: option.splits)
  then show ?case
  proof
    assume "q = Some req"
    with d have "cart_dialog tok e st = (st', Some req)" by simp
    with Cons.prems(1) show ?thesis by (rule cart_dialog_request)
  next
    assume "req \<in> set reqs"
    with s have "req \<in> set (snd (cart_session tok es st'))" by simp
    with inv' show ?thesis by (rule Cons.IH)
  qed
qed

lemma mounted_inv: "checkout_inv (mounted saved)"
  by (simp add: checkout_inv_def mounted_def)

text \<open>
  C8 (as amended). Checkout from the print cart can proceed only when the cart is not empty
  and its subtotal, as the cart computes it, is at least 15.00. For every cart that is not
  empty and has a subtotal strictly below 15.00, the continue button is shown disabled and the
  message with the minimum "15.00" and the amount still needed is shown; the continue button
  is enabled exactly when the cart is not empty and the subtotal is at least 15.00. In every
  session of the dialog, from whatever cart it mounts with, each order request sent has a
  subtotal of at least 15.00, so none has a subtotal of 12.00.
\<close>

theorem minimum_order_gate:
  "(cart \<noteq> [] \<and> subtotal cart < 15 \<longrightarrow>
      ContinueToCheckout True \<in> set (render_cart_step cart)
      \<and> ContinueToCheckout False \<notin> set (render_cart_step cart)
      \<and> MinimumOrderMessage ''15.00'' (toFixed2 (js_sub 15 (subtotal cart)))
          \<in> set (render_cart_step cart))
   \<and> (ContinueToCheckout False \<in> set (render_cart_step cart) \<longleftrightarrow> cart \<noteq> [] \<and> 15 \<le> subtotal cart)
   \<and> (\<forall>req \<in> set (snd (cart_session tok es (mounted saved))).
        15 \<le> request_subtotal req \<and> request_subtotal req \<noteq> 12)"
proof -
  have m: "MIN_ORDER = 15" by (simp add: MIN_ORDER_def)
  have a: "cart \<noteq> [] \<and> subtotal cart < 15 \<longrightarrow>
      ContinueToCheckout True \<in> set (render_cart_step cart)
      \<and> ContinueToCheckout False \<notin> set (render_cart_step cart)
      \<and> MinimumOrderMessage ''15.00'' (toFixed2 (js_sub 15 (subtotal cart)))
          \<in> set (render_cart_step cart)"
    using continue_disabled [of cart] continue_enabled_iff [of cart] by (auto simp: m)
  have b: "ContinueToCheckout False \<in> set (render_cart_step cart) \<longleftrightarrow> cart \<noteq> [] \<and> 15 \<le> subtotal cart"
    using continue_enabled_iff [of cart] by (simp add: m not_less)
  have c: "\<forall>req \<in> set (snd (cart_session tok es (mounted saved))).
        15 \<le> request_subtotal req \<and> request_subtotal req \<noteq> 12"
  proof
    fix req assume "req \<in> set (snd (cart_session tok es (mounted saved)))"
    with mounted_inv have "\<not> request_subtotal req < MIN_ORDER"
      by (rule cart_session_requests)
    then show "15 \<le> request_subtotal req \<and> request_subtotal req \<noteq> 12"
      by (simp add: m not_less)
  qed
  from a b c show ?thesis by (intro conjI)
qed

lemma round64_2_to_minus_49: "round64 (1 / 562949953421312) = 1 / 562949953421312"
  by (subst round64_eq [where e = "- 49"]) (simp_all add: round64_eval)

text \<open>
  The theorem on three carts. With three prints at 4.00 (subtotal 12.00) the continue button
  is disabled, 3.00 more is asked for, and a session that clicks continue, fills in the form
  and submits sends nothing. With three prints at 5.00 the same session sends one request, of
  subtotal 15.00. With three prints at 0.20 and three at 4.80 the subtotal the cart computes
  is 14.999999999999998: the continue button is disabled and the message asks for 0.00 more.
\<close>

theorem minimum_order_gate_witness:
  "ContinueToCheckout True \<in> set (render_cart_step
     [\<lparr>ci_file_id = ''f1'', ci_file_name = ''a.jpg'', ci_file_thumbnail = ''/t/f1'',
       ci_product_id = ''p1'', ci_product_name = ''6x4 Lustre'', ci_size = ''6x4'',
       ci_paper_type = ''lustre'', ci_price = 4, ci_quantity = 3\<rparr>])
   \<and> MinimumOrderMessage ''15.00'' ''3.00'' \<in> set (render_cart_step
     [\<lparr>ci_file_id = ''f1'', ci_file_name = ''a.jpg'', ci_file_thumbnail = ''/t/f1'',
       ci_product_id = ''p1'', ci_product_name = ''6x4 Lustre'', ci_size = ''6x4'',
       ci_paper_type = ''lustre'', ci_price = 4, ci_quantity = 3\<rparr>])
   \<and> snd (cart_session ''lisatara''
       [ClickContinue,
        ChangeDetails \<lparr>cd_email = ''a@b.uk'', cd_name = ''Lisa'', cd_line1 = ''1 High St'',
          cd_line2 = [], cd_city = ''Leeds'', cd_county = [], cd_postcode = ''LS1 1AA'',
          cd_phone = ''0712345''\<rparr>,
        ClickSubmit (Response 200 (Json None))]
       (mounted (Some
         [\<lparr>ci_file_id = ''f1'', ci_file_name = ''a.jpg'', ci_file_thumbnail = ''/t/f1'',
           ci_product_id = ''p1'', ci_product_name = ''6x4 Lustre'', ci_size = ''6x4'',
           ci_paper_type = ''lustre'', ci_price = 4, ci_quantity = 3\<rparr>]))) = []
   \<and> map request_subtotal (snd (cart_session ''lisatara''
       [ClickContinue,
        ChangeDetails \<lparr>cd_email = ''a@b.uk'', cd_name = ''Lisa'', cd_line1 = ''1 High St'',
          cd_line2 = [], cd_city = ''Leeds'', cd_county = [], cd_postcode = ''LS1 1AA'',
          cd_phone = ''0712345''\<rparr>,
        ClickSubmit (Response 200 (Json None))]
       (mounted (Some
         [\<lparr>ci_file_id = ''f1'', ci_file_name = ''a.jpg'', ci_file_thumbnail = ''/t/f1'',
           ci_product_id = ''p1'', ci_product_name = ''6x4 Lustre'', ci_size = ''6x4'',
           ci_paper_type = ''lustre'', ci_price = 5, ci_quantity = 3\<rparr>])))) = [15]
   \<and> subtotal
     [\<lparr>ci_file_id = ''f1'', ci_file_name = ''a.jpg'', ci_file_thumbnail = ''/t/f1'',
       ci_product_id = ''p1'', ci_product_name = ''Wallet'', ci_size = ''3x2'',
       ci_paper_type = ''lustre'', ci_price = round64 (1 / 5), ci_quantity = 3\<rparr>,
      \<lparr>ci_file_id = ''f1'', ci_file_name = ''a.jpg'', ci_file_thumbnail = ''/t/f1'',
       ci_product_id = ''p2'', ci_product_name = ''7x5 Lustre'', ci_size = ''7x5'',
       ci_paper_type = ''lustre'', ci_price = round64 (24 / 5), ci_quantity = 3\<rparr>]
     = 15 - 1 / 2 ^ 49
   \<and> ContinueToCheckout True \<in> set (render_cart_step
     [\<lparr>ci_file_id = ''f1'', ci_file_name = ''a.jpg'', ci_file_thumbnail = ''/t/f1'',
       ci_product_id = ''p1'', ci_product_name = ''Wallet'', ci_size = ''3x2'',
       ci_paper_type = ''lustre'', ci_price = round64 (1 / 5), ci_quantity = 3\<rparr>,
      \<lparr>ci_file_id = ''f1'', ci_file_name = ''a.jpg'', ci_file_thumbnail = ''/t/f1'',
       ci_product_id = ''p2'', ci_product_name = ''7x5 Lustre'', ci_size = ''7x5'',
       ci_paper_type = ''lustre'', ci_price = round64 (24 / 5), ci_quantity = 3\<rparr>])
   \<and> MinimumOrderMessage ''15.00'' ''0.00'' \<in> set (render_cart_step
     [\<lparr>ci_file_id = ''f1'', ci_file_name = ''a.jpg'', ci_file_thumbnail = ''/t/f1'',
       ci_product_id = ''p1'', ci_product_name = ''Wallet'', ci_size = ''3x2'',
       ci_paper_type = ''lustre'', ci_price = round64 (1 / 5), ci_quantity = 3\<rparr>,
      \<lparr>ci_file_id = ''f1'', ci_file_name = ''a.jpg'', ci_file_thumbnail = ''/t/f1'',
       ci_product_id = ''p2'', ci_product_name = ''7x5 Lustre'', ci_size = ''7x5'',
       ci_paper_type = ''lustre'', ci_price = round64 (24 / 5), ci_quantity = 3\<rparr>])"
proof -
  let ?c12 = "[\<lparr>ci_file_id = ''f1'', ci_file_name = ''a.jpg'', ci_file_thumbnail = ''/t/f1'',
       ci_product_id = ''p1'', ci_product_name = ''6x4 Lustre'', ci_size = ''6x4'',
       ci_paper_type = ''lustre'', ci_price = 4, ci_quantity = 3\<rparr>]"
  let ?c15 = "[\<lparr>ci_file_id = ''f1'', ci_file_name = ''a.jpg'', ci_file_thumbnail = ''/t/f1'',
       ci_product_id = ''p1'', ci_product_name = ''6x4 Lustre'', ci_size = ''6x4'',
       ci_paper_type = ''lustre'', ci_price = 5, ci_quantity = 3\<rparr>]"
  let ?cf = "[\<lparr>ci_file_id = ''f1'', ci_file_name = ''a.jpg'', ci_file_thumbnail = ''/t/f1'',
       ci_product_id = ''p1'', ci_product_name = ''Wallet'', ci_size = ''3x2'',
       ci_paper_type = ''lustre'', ci_price = round64 (1 / 5), ci_quantity = 3\<rparr>,
      \<lparr>ci_file_id = ''f1'', ci_file_name = ''a.jpg'', ci_file_thumbnail = ''/t/f1'',
       ci_product_id = ''p2'', ci_product_name = ''7x5 Lustre'', ci_size = ''7x5'',
       ci_paper_type = ''lustre'', ci_price = round64 (24 / 5), ci_quantity = 3\<rparr>]"
  let ?cd = "\<lparr>cd_email = ''a@b.uk'', cd_name = ''Lisa'', cd_line1 = ''1 High St'',
          cd_line2 = [], cd_city = ''Leeds'', cd_county = [], cd_postcode = ''LS1 1AA'',
          cd_phone = ''0712345''\<rparr>"
  let ?es = "[ClickContinue, ChangeDetails ?cd, ClickSubmit (Response 200 (Json None))]"
  have s12: "subtotal ?c12 = 12" by (rule subtotal_three_at_4)
  have s15: "subtotal ?c15 = 15" by (rule subtotal_three_at_5)
  have sf: "subtotal ?cf = 8444249301319679 / 562949953421312" by (rule subtotal_fifths)
  have f3: "toFixed2 (js_sub 15 (subtotal ?c12)) = ''3.00''"
    unfolding s12 js_sub_def by (simp add: round64_whole) code_simp
  have f0: "toFixed2 (js_sub 15 (subtotal ?cf)) = ''0.00''"
    unfolding sf js_sub_def by (simp add: round64_2_to_minus_49) code_simp
  have v: "validateDetails ?cd = None"
    by code_simp
  have n12: "snd (cart_session ''lisatara'' ?es (mounted (Some ?c12))) = []"
    by (simp add: mounted_def continue_enabled_iff s12 MIN_ORDER_def)
  have n15: "map request_subtotal (snd (cart_session ''lisatara'' ?es (mounted (Some ?c15)))) = [15]"
    by (simp add: mounted_def continue_enabled_iff s15 MIN_ORDER_def submitOrder_def v ok_def
        request_subtotal_orderData)
  have l12: "?c12 \<noteq> [] \<and> subtotal ?c12 < 15" by (simp add: s12)
  have lf: "?cf \<noteq> [] \<and> subtotal ?cf < 15" unfolding sf by simp
  have vf: "subtotal ?cf = 15 - 1 / 2 ^ 49" unfolding sf by simp
  from minimum_order_gate [of ?c12 "''lisatara''" ?es "Some ?c12"] l12
  have a: "ContinueToCheckout True \<in> set (render_cart_step ?c12)"
    and b: "MinimumOrderMessage ''15.00'' (toFixed2 (js_sub 15 (subtotal ?c12)))
        \<in> set (render_cart_step ?c12)"
    by blast+
  from minimum_order_gate [of ?cf "''lisatara''" ?es "Some ?cf"] lf
  have c: "ContinueToCheckout True \<in> set (render_cart_step ?cf)"
    and d: "MinimumOrderMessage ''15.00'' (toFixed2 (js_sub 15 (subtotal ?cf)))
        \<in> set (render_cart_step ?cf)"
    by blast+
  from a b [unfolded f3] n12 n15 vf c d [unfolded f0] show ?thesis
    by (intro conjI)
qed

text \<open>
  The claim as first stated fails on the empty cart: its subtotal 0 is below 15.00, and the
  cart step shows the empty-cart message only, with no continue button and no shortfall
  message.
\<close>

theorem minimum_order_gate_counterexample:
  "subtotal [] < MIN_ORDER \<and> render_cart_step [] = [CartEmptyMessage]"
  by (simp add: subtotal_def MIN_ORDER_def render_cart_step_def)

section \<open>The two copies of formatBytes\<close>

lemma ln_1024: "ln (1024::real) = 10 * ln 2"
proof -
  have "(1024::real) = 2 ^ 10" by simp
  then have "ln (1024::real) = ln (2 ^ 10)" by simp
  also have "\<dots> = 10 * ln 2" by (simp only: ln_realpow of_nat_numeral)
  finally show ?thesis .
qed

lemma ln_pow2_mult: "0 < c \<Longrightarrow> ln (2 ^ n * c) = real n * ln 2 + ln (c::real)"
  by (simp add: ln_mult ln_realpow)

text \<open>
  A byte count at least one part in 2^40 below a power of two has a logarithm to base 1024
  more than 2^-44 below that of the power, and likewise above.
\<close>

lemma log_1024_below:
  fixes x :: real
  assumes "0 < x" and "x \<le> 2 ^ n * (1 - 1 / 2 ^ 40)"
  shows "log 1024 x < real n / 10 - 1 / 2 ^ 44"
proof -
  have l2: "0 < ln (2::real)" by simp
  have "ln x \<le> ln (2 ^ n * (1 - 1 / 2 ^ 40))"
    using assms by simp
  also have "\<dots> = real n * ln 2 + ln (1 - 1 / 2 ^ 40)"
    by (rule ln_pow2_mult) simp
  also have "\<dots> \<le> real n * ln 2 - 1 / 2 ^ 40"
    using ln_one_minus_pos_upper_bound [of "1 / 2 ^ 40"] by simp
  finally have a: "ln x \<le> real n * ln 2 - 1 / 2 ^ 40" .
  have "10 / 2 ^ 44 * ln (2::real) < 10 / 2 ^ 44 * 1"
    using ln_2_less_1 by (intro mult_strict_left_mono) simp_all
  then have b: "10 / 2 ^ 44 * ln (2::real) < 1 / 2 ^ 40" by simp
  from a b have "ln x < (real n / 10 - 1 / 2 ^ 44) * (10 * ln 2)"
    by (simp add: algebra_simps)
  then have "ln x / (10 * ln 2) < real n / 10 - 1 / 2 ^ 44"
    using l2 by (simp only: pos_divide_less_eq)
  then show ?thesis
    by (simp only: log_def ln_1024)
qed

lemma log_1024_above:
  fixes x :: real
  assumes "2 ^ n * (1 + 1 / 2 ^ 40) \<le> x"
  shows "real n / 10 + 1 / 2 ^ 44 \<le> log 1024 x"
proof -
  have l2: "0 < ln (2::real)" by simp
  have pos: "(0::real) < 2 ^ n * (1 + 1 / 2 ^ 40)" by simp
  from pos assms have x: "0 < x" by (rule less_le_trans)
  have "real n * ln 2 + (1 / 2 ^ 40 - (1 / 2 ^ 40)\<^sup>2) \<le> real n * ln 2 + ln (1 + 1 / 2 ^ 40)"
    using ln_one_plus_pos_lower_bound [of "1 / 2 ^ 40"] by simp
  also have "\<dots> = ln (2 ^ n * (1 + 1 / 2 ^ 40))"
    by (rule ln_pow2_mult [symmetric]) simp
  also have "\<dots> \<le> ln x"
    using assms pos x by (simp only: ln_le_cancel_iff)
  finally have a: "real n * ln 2 + (1 / 2 ^ 40 - (1 / 2 ^ 40)\<^sup>2) \<le> ln x" .
  have "10 / 2 ^ 44 * ln (2::real) < 10 / 2 ^ 44 * 1"
    using ln_2_less_1 by (intro mult_strict_left_mono) simp_all
  also have "\<dots> \<le> 1 / 2 ^ 40 - (1 / 2 ^ 40)\<^sup>2"
    by (simp add: power2_eq_square)
  finally have b: "10 / 2 ^ 44 * ln (2::real) < 1 / 2 ^ 40 - (1 / 2 ^ 40)\<^sup>2" .
  from a b have "(real n / 10 + 1 / 2 ^ 44) * (10 * ln 2) \<le> ln x"
    by (simp add: algebra_simps)
  then have "real n / 10 + 1 / 2 ^ 44 \<le> ln x / (10 * ln 2)"
    using l2 by (simp only: pos_le_divide_eq)
  then show ?thesis
    by (simp only: log_def ln_1024)
qed

lemma log_accurateD:
  "log_accurate q \<Longrightarrow> 1 \<le> b \<Longrightarrow> b < 2 ^ 53 \<Longrightarrow> \<bar>q b - log 1024 (real b)\<bar> \<le> 1 / 2 ^ 44"
  by (simp add: log_accurate_def)

lemma ratio_below:
  assumes "log_accurate q" and "1 \<le> b" and "real b \<le> 2 ^ n * (1 - 1 / 2 ^ 40)" and "b < 2 ^ 53"
  shows "q b < real n / 10"
proof -
  from assms(2) have "0 < real b" by simp
  with assms(3) have "log 1024 (real b) < real n / 10 - 1 / 2 ^ 44"
    by (intro log_1024_below)
  with log_accurateD [OF assms(1,2,4)] show ?thesis by linarith
qed

lemma ratio_above:
  assumes "log_accurate q" and "2 ^ n * (1 + 1 / 2 ^ 40) \<le> real b" and "b < 2 ^ 53"
  shows "real n / 10 \<le> q b"
proof -
  have "(0::real) < 2 ^ n * (1 + 1 / 2 ^ 40)" by simp
  with assms(2) have "0 < real b" by linarith
  then have b1: "1 \<le> b" by simp
  from assms(2) have "real n / 10 + 1 / 2 ^ 44 \<le> log 1024 (real b)"
    by (rule log_1024_above)
  with log_accurateD [OF assms(1) b1 assms(3)] show ?thesis by linarith
qed

lemma index_below_2_40:
  assumes "log_accurate q" and "1 \<le> b" and "b < 2 ^ 40"
  shows "\<lfloor>q b\<rfloor> < 4"
proof -
  from assms(3) have "b \<le> 2 ^ 40 - 1" by simp
  then have "real b \<le> real (2 ^ 40 - 1)" by (simp only: of_nat_le_iff)
  then have le: "real b \<le> 2 ^ 40 * (1 - 1 / 2 ^ 40)" by simp
  from assms(3) have "b < 2 ^ 53" by simp
  from ratio_below [OF assms(1,2) le this] have "q b < 4" by simp
  then show ?thesis by (simp add: floor_less_iff)
qed

lemma index_above_2_40:
  assumes "log_accurate q" and "2 ^ 40 < b" and "b < 2 ^ 53"
  shows "4 \<le> \<lfloor>q b\<rfloor>"
proof -
  from assms(2) have "2 ^ 40 + 1 \<le> b" by simp
  then have "real (2 ^ 40 + 1) \<le> real b" by (simp only: of_nat_le_iff)
  then have ge: "2 ^ 40 * (1 + 1 / 2 ^ 40) \<le> real b" by simp
  from ratio_above [OF assms(1) ge assms(3)] have "4 \<le> q b" by simp
  then show ?thesis by (simp add: le_floor_iff)
qed

lemma index_below_2_50:
  assumes "log_accurate q" and "1 \<le> b" and "b \<le> 2 ^ 50 - 1024"
  shows "\<lfloor>q b\<rfloor> < 5"
proof -
  from assms(3) have "real b \<le> real (2 ^ 50 - 1024)" by (simp only: of_nat_le_iff)
  then have le: "real b \<le> 2 ^ 50 * (1 - 1 / 2 ^ 40)" by simp
  from assms(3) have "b < 2 ^ 53" by simp
  from ratio_below [OF assms(1,2) le this] have "q b < 5" by simp
  then show ?thesis by (simp add: floor_less_iff)
qed

lemma index_above_2_50:
  assumes "log_accurate q" and "2 ^ 50 + 1024 \<le> b" and "b < 2 ^ 53"
  shows "5 \<le> \<lfloor>q b\<rfloor>"
proof -
  from assms(2) have "real (2 ^ 50 + 1024) \<le> real b" by (simp only: of_nat_le_iff)
  then have ge: "2 ^ 50 * (1 + 1 / 2 ^ 40) \<le> real b" by simp
  from ratio_above [OF assms(1) ge assms(3)] have "5 \<le> q b" by simp
  then show ?thesis by (simp add: le_floor_iff)
qed

lemma at_index_FolderManager:
  "at_index sizes_FolderManager i = ''undefined'' \<longleftrightarrow> i < 0 \<or> 4 \<le> i"
proof (cases "0 \<le> i \<and> i < 4")
  case True
  then have "i = 0 \<or> i = 1 \<or> i = 2 \<or> i = 3" by arith
  then show ?thesis
    by (auto simp: at_index_def sizes_FolderManager_def)
next
  case False
  then show ?thesis
    by (auto simp: at_index_def sizes_FolderManager_def)
qed

lemma at_index_DashboardHome:
  "at_index sizes_DashboardHome i = ''undefined'' \<longleftrightarrow> i < 0 \<or> 5 \<le> i"
  "at_index sizes_DashboardHome i = ''TB'' \<longleftrightarrow> i = 4"
proof -
  consider "i < 0 \<or> 5 \<le> i" | "i = 0" | "i = 1" | "i = 2" | "i = 3" | "i = 4" by arith
  then show "at_index sizes_DashboardHome i = ''undefined'' \<longleftrightarrow> i < 0 \<or> 5 \<le> i"
    by cases (auto simp: at_index_def sizes_DashboardHome_def)
  consider "i < 0 \<or> 5 \<le> i" | "i = 0" | "i = 1" | "i = 2" | "i = 3" | "i = 4" by arith
  then show "at_index sizes_DashboardHome i = ''TB'' \<longleftrightarrow> i = 4"
    by cases (auto simp: at_index_def sizes_DashboardHome_def)
qed

lemma at_index_agree:
  "at_index sizes_FolderManager i = at_index sizes_DashboardHome i \<longleftrightarrow> i \<noteq> 4"
proof -
  consider "i < 0 \<or> 5 \<le> i" | "i = 0" | "i = 1" | "i = 2" | "i = 3" | "i = 4" by arith
  then show ?thesis
    by cases (auto simp: at_index_def sizes_FolderManager_def sizes_DashboardHome_def)
qed

lemma formatBytes_at:
  assumes "b \<noteq> 0" and "\<lfloor>q b\<rfloor> = i"
  shows "formatBytes_FolderManager q b
      = show_hundredths (hundredths b 1024 i) @ '' '' @ at_index sizes_FolderManager i"
    and "formatBytes_DashboardHome q b
      = show_hundredths (hundredths b 1024 i) @ '' '' @ at_index sizes_DashboardHome i"
  using assms by (simp_all add: formatBytes_FolderManager_def formatBytes_DashboardHome_def Let_def)

lemma formatBytes_eq_iff:
  "formatBytes_FolderManager q b = formatBytes_DashboardHome q b \<longleftrightarrow> b = 0 \<or> \<lfloor>q b\<rfloor> \<noteq> 4"
proof (cases "b = 0")
  case True
  then show ?thesis
    by (simp add: formatBytes_FolderManager_def formatBytes_DashboardHome_def)
next
  case False
  from formatBytes_at [OF False refl, of q] at_index_agree [of "\<lfloor>q b\<rfloor>"] False
  show ?thesis by simp
qed

text \<open>The exact logarithm is within any bound of itself, and its floor is the exact index.\<close>

lemma exact_log_ratio_accurate: "log_accurate exact_log_ratio"
  by (simp add: log_accurate_def exact_log_ratio_def)

lemma floor_exact_log_ratio:
  assumes "1024 ^ j \<le> b" and "b < 1024 ^ Suc j"
  shows "\<lfloor>exact_log_ratio b\<rfloor> = int j"
proof -
  have "(0::nat) < 1024 ^ j" by simp
  with assms(1) have b0: "0 < b" by linarith
  then have rb: "0 < real b" by simp
  from assms(1) have "real (1024 ^ j) \<le> real b" by (simp only: of_nat_le_iff)
  then have "(1024::real) powr real j \<le> real b"
    by (simp add: powr_realpow)
  then have lo: "real j \<le> log 1024 (real b)"
    using rb by (simp add: le_log_iff)
  from assms(2) have "real b < real (1024 ^ Suc j)" by (simp only: of_nat_less_iff)
  then have "real b < (1024::real) powr real (Suc j)"
    by (simp only: powr_realpow) simp
  then have hi: "log 1024 (real b) < real (Suc j)"
    using rb by (simp add: log_less_iff)
  from lo hi show ?thesis
    unfolding exact_log_ratio_def by (intro floor_unique) simp_all
qed

text \<open>
  C10 (as amended). The two copies of \<open>formatBytes\<close> return the same string exactly at the
  byte counts whose computed index, the floor of \<open>Math.log(b) / Math.log(1024)\<close>, is not 4;
  at index 4 the FolderManager copy indexes past the end of its four units and prints
  "undefined" while the DashboardHome copy selects TB. With the quotient within 2^-44 of the
  logarithm to base 1024 (byte counts below 2^53): the copies return the same string for every
  byte count below 2^40; above 2^40 the FolderManager copy indexes past the end of its list;
  the DashboardHome copy selects TB for every byte count above 2^40 and up to 2^50 - 1024, and
  there the two strings differ; from 2^50 + 1024 on it too indexes past the end of its five
  units, and the two strings are equal again. At 2^40 itself and within 1024 of 2^50 the index
  hangs on the last bits of the engine's logarithm.
\<close>

theorem formatBytes_copies:
  "(formatBytes_FolderManager q b = formatBytes_DashboardHome q b \<longleftrightarrow> b = 0 \<or> \<lfloor>q b\<rfloor> \<noteq> 4)
   \<and> (\<lfloor>q b\<rfloor> = 4 \<longrightarrow>
        at_index sizes_FolderManager \<lfloor>q b\<rfloor> = ''undefined''
        \<and> at_index sizes_DashboardHome \<lfloor>q b\<rfloor> = ''TB'')
   \<and> (log_accurate q \<longrightarrow>
        (b < 2 ^ 40 \<longrightarrow> formatBytes_FolderManager q b = formatBytes_DashboardHome q b)
      \<and> (2 ^ 40 < b \<and> b < 2 ^ 53 \<longrightarrow>
            int (length sizes_FolderManager) \<le> \<lfloor>q b\<rfloor>
            \<and> at_index sizes_FolderManager \<lfloor>q b\<rfloor> = ''undefined'')
      \<and> (2 ^ 40 < b \<and> b \<le> 2 ^ 50 - 1024 \<longrightarrow>
            \<lfloor>q b\<rfloor> = 4
            \<and> at_index sizes_DashboardHome \<lfloor>q b\<rfloor> = ''TB''
            \<and> formatBytes_FolderManager q b \<noteq> formatBytes_DashboardHome q b)
      \<and> (2 ^ 50 + 1024 \<le> b \<and> b < 2 ^ 53 \<longrightarrow>
            int (length sizes_DashboardHome) \<le> \<lfloor>q b\<rfloor>
            \<and> at_index sizes_DashboardHome \<lfloor>q b\<rfloor> = ''undefined''
            \<and> formatBytes_FolderManager q b = formatBytes_DashboardHome q b))"
proof -
  have a: "formatBytes_FolderManager q b = formatBytes_DashboardHome q b
      \<longleftrightarrow> b = 0 \<or> \<lfloor>q b\<rfloor> \<noteq> 4"
    by (rule formatBytes_eq_iff)
  have b: "\<lfloor>q b\<rfloor> = 4 \<longrightarrow>
        at_index sizes_FolderManager \<lfloor>q b\<rfloor> = ''undefined''
        \<and> at_index sizes_DashboardHome \<lfloor>q b\<rfloor> = ''TB''"
    by (simp add: at_index_FolderManager at_index_DashboardHome)
  have c: "log_accurate q \<longrightarrow>
        (b < 2 ^ 40 \<longrightarrow> formatBytes_FolderManager q b = formatBytes_DashboardHome q b)
      \<and> (2 ^ 40 < b \<and> b < 2 ^ 53 \<longrightarrow>
            int (length sizes_FolderManager) \<le> \<lfloor>q b\<rfloor>
            \<and> at_index sizes_FolderManager \<lfloor>q b\<rfloor> = ''undefined'')
      \<and> (2 ^ 40 < b \<and> b \<le> 2 ^ 50 - 1024 \<longrightarrow>
            \<lfloor>q b\<rfloor> = 4
            \<and> at_index sizes_DashboardHome \<lfloor>q b\<rfloor> = ''TB''
            \<and> formatBytes_FolderManager q b \<noteq> formatBytes_DashboardHome q b)
      \<and> (2 ^ 50 + 1024 \<le> b \<and> b < 2 ^ 53 \<longrightarrow>
            int (length sizes_DashboardHome) \<le> \<lfloor>q b\<rfloor>
            \<and> at_index sizes_DashboardHome \<lfloor>q b\<rfloor> = ''undefined''
            \<and> formatBytes_FolderManager q b = formatBytes_DashboardHome q b)"
  proof
    assume acc: "log_accurate q"
    have c1: "b < 2 ^ 40 \<longrightarrow> formatBytes_FolderManager q b = formatBytes_DashboardHome q b"
    proof
      assume lt: "b < 2 ^ 40"
      show "formatBytes_FolderManager q b = formatBytes_DashboardHome q b"
      proof (cases "b = 0")
        case True
        then show ?thesis by (simp add: formatBytes_eq_iff)
      next
        case False
        then have "1 \<le> b" by simp
        from index_below_2_40 [OF acc this lt] have "\<lfloor>q b\<rfloor> \<noteq> 4" by linarith
        with formatBytes_eq_iff [of q b] show ?thesis by blast
      qed
    qed
    have c2: "2 ^ 40 < b \<and> b < 2 ^ 53 \<longrightarrow>
            int (length sizes_FolderManager) \<le> \<lfloor>q b\<rfloor>
            \<and> at_index sizes_FolderManager \<lfloor>q b\<rfloor> = ''undefined''"
    proof
      assume r: "2 ^ 40 < b \<and> b < 2 ^ 53"
      then have i: "4 \<le> \<lfloor>q b\<rfloor>" by (intro index_above_2_40 [OF acc]) simp_all
      have len: "int (length sizes_FolderManager) = 4" by (simp add: sizes_FolderManager_def)
      from i have u: "at_index sizes_FolderManager \<lfloor>q b\<rfloor> = ''undefined''"
        by (simp only: at_index_FolderManager) simp
      from i u show "int (length sizes_FolderManager) \<le> \<lfloor>q b\<rfloor>
            \<and> at_index sizes_FolderManager \<lfloor>q b\<rfloor> = ''undefined''"
        by (simp only: len simp_thms)
    qed
    have c3: "2 ^ 40 < b \<and> b \<le> 2 ^ 50 - 1024 \<longrightarrow>
            \<lfloor>q b\<rfloor> = 4
            \<and> at_index sizes_DashboardHome \<lfloor>q b\<rfloor> = ''TB''
            \<and> formatBytes_FolderManager q b \<noteq> formatBytes_DashboardHome q b"
    proof
      assume r: "2 ^ 40 < b \<and> b \<le> 2 ^ 50 - 1024"
      then have lo: "2 ^ 40 < b" and hi: "b \<le> 2 ^ 50 - 1024" by simp_all
      from lo have b1: "1 \<le> b" and b0: "b \<noteq> 0" by simp_all
      from hi have b53: "b < 2 ^ 53" by simp
      from index_above_2_40 [OF acc lo b53] index_below_2_50 [OF acc b1 hi]
      have i: "\<lfloor>q b\<rfloor> = 4" by linarith
      with b0 show "\<lfloor>q b\<rfloor> = 4
            \<and> at_index sizes_DashboardHome \<lfloor>q b\<rfloor> = ''TB''
            \<and> formatBytes_FolderManager q b \<noteq> formatBytes_DashboardHome q b"
        by (simp add: at_index_DashboardHome formatBytes_eq_iff)
    qed
    have c4: "2 ^ 50 + 1024 \<le> b \<and> b < 2 ^ 53 \<longrightarrow>
            int (length sizes_DashboardHome) \<le> \<lfloor>q b\<rfloor>
            \<and> at_index sizes_DashboardHome \<lfloor>q b\<rfloor> = ''undefined''
            \<and> formatBytes_FolderManager q b = formatBytes_DashboardHome q b"
    proof
      assume r: "2 ^ 50 + 1024 \<le> b \<and> b < 2 ^ 53"
      then have i: "5 \<le> \<lfloor>q b\<rfloor>" by (intro index_above_2_50 [OF acc]) simp_all
      have len: "int (length sizes_DashboardHome) = 5" by (simp add: sizes_DashboardHome_def)
      from i have u: "at_index sizes_DashboardHome \<lfloor>q b\<rfloor> = ''undefined''"
        by (simp only: at_index_DashboardHome) simp
      from i have "\<lfloor>q b\<rfloor> \<noteq> 4" by linarith
      with formatBytes_eq_iff [of q b]
      have e: "formatBytes_FolderManager q b = formatBytes_DashboardHome q b" by blast
      from i u e show "int (length sizes_DashboardHome) \<le> \<lfloor>q b\<rfloor>
            \<and> at_index sizes_DashboardHome \<lfloor>q b\<rfloor> = ''undefined''
            \<and> formatBytes_FolderManager q b = formatBytes_DashboardHome q b"
        by (simp only: len simp_thms)
    qed
    from c1 c2 c3 c4
    show "(b < 2 ^ 40 \<longrightarrow> formatBytes_FolderManager q b = formatBytes_DashboardHome q b)
      \<and> (2 ^ 40 < b \<and> b < 2 ^ 53 \<longrightarrow>
            int (length sizes_FolderManager) \<le> \<lfloor>q b\<rfloor>
            \<and> at_index sizes_FolderManager \<lfloor>q b\<rfloor> = ''undefined'')
      \<and> (2 ^ 40 < b \<and> b \<le> 2 ^ 50 - 1024 \<longrightarrow>
            \<lfloor>q b\<rfloor> = 4
            \<and> at_index sizes_DashboardHome \<lfloor>q b\<rfloor> = ''TB''
            \<and> formatBytes_FolderManager q b \<noteq> formatBytes_DashboardHome q b)
      \<and> (2 ^ 50 + 1024 \<le> b \<and> b < 2 ^ 53 \<longrightarrow>
            int (length sizes_DashboardHome) \<le> \<lfloor>q b\<rfloor>
            \<and> at_index sizes_DashboardHome \<lfloor>q b\<rfloor> = ''undefined''
            \<and> formatBytes_FolderManager q b = formatBytes_DashboardHome q b)"
      by (intro conjI)
  qed
  from a b c show ?thesis by (intro conjI)
qed

lemma formatBytes_1536:
  "formatBytes_FolderManager exact_log_ratio 1536 = ''1.5 KB''"
  "formatBytes_DashboardHome exact_log_ratio 1536 = ''1.5 KB''"
proof -
  have i: "\<lfloor>exact_log_ratio 1536\<rfloor> = int 1" by (rule floor_exact_log_ratio) simp_all
  have n: "(1536::nat) \<noteq> 0" by simp
  show "formatBytes_FolderManager exact_log_ratio 1536 = ''1.5 KB''"
    unfolding formatBytes_at(1) [where q = exact_log_ratio, OF n i]
    by (simp add: sizes_FolderManager_def at_index_def hundredths_def show_hundredths_def
        show_nat_small digit_char_simps)
  show "formatBytes_DashboardHome exact_log_ratio 1536 = ''1.5 KB''"
    unfolding formatBytes_at(2) [where q = exact_log_ratio, OF n i]
    by (simp add: sizes_DashboardHome_def at_index_def hundredths_def show_hundredths_def
        show_nat_small digit_char_simps)
qed

lemma formatBytes_2_41:
  "formatBytes_FolderManager exact_log_ratio (2 ^ 41) = ''2 undefined''"
  "formatBytes_DashboardHome exact_log_ratio (2 ^ 41) = ''2 TB''"
proof -
  have i: "\<lfloor>exact_log_ratio (2 ^ 41)\<rfloor> = int 4" by (rule floor_exact_log_ratio) simp_all
  have n: "(2::nat) ^ 41 \<noteq> 0" by simp
  show "formatBytes_FolderManager exact_log_ratio (2 ^ 41) = ''2 undefined''"
    unfolding formatBytes_at(1) [where q = exact_log_ratio, OF n i]
    by (simp add: sizes_FolderManager_def at_index_def hundredths_def show_hundredths_def
        show_nat_small digit_char_simps)
  show "formatBytes_DashboardHome exact_log_ratio (2 ^ 41) = ''2 TB''"
    unfolding formatBytes_at(2) [where q = exact_log_ratio, OF n i]
    by (simp add: sizes_DashboardHome_def at_index_def hundredths_def show_hundredths_def
        show_nat_small digit_char_simps)
qed

lemma formatBytes_2_50:
  "formatBytes_FolderManager exact_log_ratio (2 ^ 50) = ''1 undefined''"
  "formatBytes_DashboardHome exact_log_ratio (2 ^ 50) = ''1 undefined''"
proof -
  have i: "\<lfloor>exact_log_ratio (2 ^ 50)\<rfloor> = int 5" by (rule floor_exact_log_ratio) simp_all
  have n: "(2::nat) ^ 50 \<noteq> 0" by simp
  show "formatBytes_FolderManager exact_log_ratio (2 ^ 50) = ''1 undefined''"
    unfolding formatBytes_at(1) [where q = exact_log_ratio, OF n i]
    by (simp add: sizes_FolderManager_def at_index_def hundredths_def show_hundredths_def
        show_nat_small digit_char_simps)
  show "formatBytes_DashboardHome exact_log_ratio (2 ^ 50) = ''1 undefined''"
    unfolding formatBytes_at(2) [where q = exact_log_ratio, OF n i]
    by (simp add: sizes_DashboardHome_def at_index_def hundredths_def show_hundredths_def
        show_nat_small digit_char_simps)
qed

lemma formatBytes_2_51:
  "formatBytes_FolderManager exact_log_ratio (2 ^ 51) = ''2 undefined''"
  "formatBytes_DashboardHome exact_log_ratio (2 ^ 51) = ''2 undefined''"
proof -
  have i: "\<lfloor>exact_log_ratio (2 ^ 51)\<rfloor> = int 5" by (rule floor_exact_log_ratio) simp_all
  have n: "(2::nat) ^ 51 \<noteq> 0" by simp
  show "formatBytes_FolderManager exact_log_ratio (2 ^ 51) = ''2 undefined''"
    unfolding formatBytes_at(1) [where q = exact_log_ratio, OF n i]
    by (simp add: sizes_FolderManager_def at_index_def hundredths_def show_hundredths_def
        show_nat_small digit_char_simps)
  show "formatBytes_DashboardHome exact_log_ratio (2 ^ 51) = ''2 undefined''"
    unfolding formatBytes_at(2) [where q = exact_log_ratio, OF n i]
    by (simp add: sizes_DashboardHome_def at_index_def hundredths_def show_hundredths_def
        show_nat_small digit_char_simps)
qed

text \<open>
  The theorem with the quotient taken exactly: at 1536 bytes both copies print "1.5 KB"; at
  2^41 bytes the DashboardHome copy prints "2 TB" and the FolderManager copy "2 undefined";
  at 2^51 bytes both print "2 undefined".
\<close>

theorem formatBytes_copies_witness:
  "log_accurate exact_log_ratio
   \<and> (1536::nat) < 2 ^ 40
   \<and> formatBytes_FolderManager exact_log_ratio 1536 = ''1.5 KB''
   \<and> formatBytes_DashboardHome exact_log_ratio 1536 = ''1.5 KB''
   \<and> (2::nat) ^ 40 < 2 ^ 41 \<and> (2::nat) ^ 41 \<le> 2 ^ 50 - 1024
   \<and> \<lfloor>exact_log_ratio (2 ^ 41)\<rfloor> = 4
   \<and> formatBytes_DashboardHome exact_log_ratio (2 ^ 41) = ''2 TB''
   \<and> formatBytes_FolderManager exact_log_ratio (2 ^ 41) = ''2 undefined''
   \<and> formatBytes_FolderManager exact_log_ratio (2 ^ 41)
       \<noteq> formatBytes_DashboardHome exact_log_ratio (2 ^ 41)
   \<and> (2::nat) ^ 50 + 1024 \<le> 2 ^ 51 \<and> (2::nat) ^ 51 < 2 ^ 53
   \<and> formatBytes_FolderManager exact_log_ratio (2 ^ 51) = ''2 undefined''
   \<and> formatBytes_DashboardHome exact_log_ratio (2 ^ 51) = ''2 undefined''"
proof -
  have acc: "log_accurate exact_log_ratio" by (rule exact_log_ratio_accurate)
  have r1: "(1536::nat) < 2 ^ 40" by simp
  have r2: "(2::nat) ^ 40 < 2 ^ 41 \<and> (2::nat) ^ 41 \<le> 2 ^ 50 - 1024" by simp
  have r3: "(2::nat) ^ 50 + 1024 \<le> 2 ^ 51 \<and> (2::nat) ^ 51 < 2 ^ 53" by simp
  from formatBytes_copies [of exact_log_ratio "2 ^ 41"] acc r2
  have i: "\<lfloor>exact_log_ratio (2 ^ 41)\<rfloor> = 4"
    and d: "formatBytes_FolderManager exact_log_ratio (2 ^ 41)
       \<noteq> formatBytes_DashboardHome exact_log_ratio (2 ^ 41)"
    by blast+
  from acc r1 formatBytes_1536 r2 i formatBytes_2_41 d r3 formatBytes_2_51
  show ?thesis by (intro conjI) (simp_all only: simp_thms)
qed

text \<open>
  The claim as first stated says that at and above 2^40 the DashboardHome copy selects TB. At
  2^50, where the quotient is 5, it does not: both copies print "1 undefined"; and so at 2^51,
  where both print "2 undefined".
\<close>

theorem formatBytes_copies_counterexample:
  "(2::nat) ^ 40 \<le> 2 ^ 50
   \<and> \<lfloor>exact_log_ratio (2 ^ 50)\<rfloor> = 5
   \<and> formatBytes_DashboardHome exact_log_ratio (2 ^ 50) = ''1 undefined''
   \<and> formatBytes_FolderManager exact_log_ratio (2 ^ 50) = ''1 undefined''
   \<and> formatBytes_DashboardHome exact_log_ratio (2 ^ 51) = ''2 undefined''
   \<and> formatBytes_FolderManager exact_log_ratio (2 ^ 51) = ''2 undefined''"
proof -
  have i: "\<lfloor>exact_log_ratio (2 ^ 50)\<rfloor> = int 5" by (rule floor_exact_log_ratio) simp_all
  have r: "(2::nat) ^ 40 \<le> 2 ^ 50" by simp
  from r i formatBytes_2_50 formatBytes_2_51 show ?thesis
    by (intro conjI) (simp_all only: simp_thms of_nat_numeral)
qed

section \<open>Batch upload goes on past a failure\<close>

lemma answers_length: "answers request files srv = (rs, srv') \<Longrightarrow> length rs = length files"
proof (induction files arbitrary: srv rs srv')
  case Nil
  then show ?case by simp
next
  case (Cons f rest)
  obtain r s1 where a: "request srv f = (r, s1)"
    by (cases "request srv f") auto
  obtain rs1 s2 where b: "answers request rest s1 = (rs1, s2)"
    by (cases "answers request rest s1") auto
  from Cons.prems a b have "rs = r # rs1" by simp
  with Cons.IH [OF b] show ?case by simp
qed

text \<open>
  The loop of \<open>onDrop\<close> asks the back end for each file in turn, whatever it answered
  before: it sends what the back end's own run is asked, counts the answers that are not
  failures, and shows a toast for each failure.
\<close>

lemma onDrop_loop_answers:
  "answers (\<lambda>s f. upload s folder f) files srv = (rs, srv') \<Longrightarrow>
   onDrop_loop upload folder files (completed, toasts, sent, srv)
   = (completed + length (filter (\<lambda>r. \<not> xhr_failed r) rs),
      toasts @ map (\<lambda>(f, r). onDrop_error_toast f r) (filter (\<lambda>(f, r). xhr_failed r) (zip files rs)),
      sent @ zip files rs, srv')"
proof (induction files arbitrary: completed toasts sent srv rs)
  case Nil
  then show ?case by simp
next
  case (Cons f rest)
  obtain r s1 where a: "upload srv folder f = (r, s1)"
    by (cases "upload srv folder f") auto
  obtain rs1 where b: "answers (\<lambda>s f. upload s folder f) rest s1 = (rs1, srv')"
    and rs: "rs = r # rs1"
    using Cons.prems a by (cases "answers (\<lambda>s f. upload s folder f) rest s1") auto
  show ?case
  proof (cases "xhr_failed r")
    case True
    then have "onDrop_loop upload folder (f # rest) (completed, toasts, sent, srv)
        = onDrop_loop upload folder rest
            (completed, toasts @ [onDrop_error_toast f r], sent @ [(f, r)], s1)"
      using a by (auto simp: xhr_failed_def ok_def split: xhr_result.splits)
    with Cons.IH [OF b] True rs show ?thesis by simp
  next
    case False
    then have "onDrop_loop upload folder (f # rest) (completed, toasts, sent, srv)
        = onDrop_loop upload folder rest (completed + 1, toasts, sent @ [(f, r)], s1)"
      using a by (auto simp: xhr_failed_def ok_def split: xhr_result.splits)
    with Cons.IH [OF b] False rs show ?thesis by simp
  qed
qed

lemma handleUpload_loop_answers:
  "answers (\<lambda>s f. upload s token folder f) files srv = (rs, srv') \<Longrightarrow>
   handleUpload_loop upload token folder files (uploaded, toasts, sent, srv)
   = (uploaded + length (filter (\<lambda>r. \<not> fetch_failed r) rs),
      toasts @ map (\<lambda>(f, r). ToastError (''Failed to upload '' @ uf_name f))
                 (filter (\<lambda>(f, r). fetch_failed r) (zip files rs)),
      sent @ zip files rs, srv')"
proof (induction files arbitrary: uploaded toasts sent srv rs)
  case Nil
  then show ?case by simp
next
  case (Cons f rest)
  obtain r s1 where a: "upload srv token folder f = (r, s1)"
    by (cases "upload srv token folder f") auto
  obtain rs1 where b: "answers (\<lambda>s f. upload s token folder f) rest s1 = (rs1, srv')"
    and rs: "rs = r # rs1"
    using Cons.prems a by (cases "answers (\<lambda>s f. upload s token folder f) rest s1") auto
  show ?case
  proof (cases "fetch_failed r")
    case True
    then have "handleUpload_loop upload token folder (f # rest) (uploaded, toasts, sent, srv)
        = handleUpload_loop upload token folder rest
            (uploaded, toasts @ [ToastError (''Failed to upload '' @ uf_name f)],
             sent @ [(f, r)], s1)"
      using a by (auto simp: fetch_failed_def split: fetched.splits)
    with Cons.IH [OF b] True rs show ?thesis by simp
  next
    case False
    then have "handleUpload_loop upload token folder (f # rest) (uploaded, toasts, sent, srv)
        = handleUpload_loop upload token folder rest (uploaded + 1, toasts, sent @ [(f, r)], s1)"
      using a by (auto simp: fetch_failed_def split: fetched.splits)
    with Cons.IH [OF b] False rs show ?thesis by simp
  qed
qed

lemma one_failed_rest:
  "length (filter P xs) = 1 \<Longrightarrow> length (filter (\<lambda>x. \<not> P x) xs) = length xs - 1"
  using sum_length_filter_compl [of P xs] by simp

lemma filter_zip_snd:
  "length xs = length ys \<Longrightarrow>
   length (filter (\<lambda>(x, y). P y) (zip xs ys)) = length (filter P ys)"
proof (induction xs arbitrary: ys)
  case Nil
  then show ?case by simp
next
  case (Cons x xs)
  then obtain y ys' where "ys = y # ys'" by (cases ys) auto
  with Cons show ?case by simp
qed

lemma onDrop_one_failure:
  assumes "folder \<noteq> []"
    and "answers (\<lambda>s f. upload s folder f) files srv = (rs, srv')"
    and "length (filter xhr_failed rs) = 1"
  shows "onDrop upload (Some folder) files srv
      = (length files - 1,
         map (\<lambda>(f, r). onDrop_error_toast f r) (filter (\<lambda>(f, r). xhr_failed r) (zip files rs)) @
           [ToastSuccess (''Uploaded '' @ show_nat (length files - 1) @ ''/'' @
              show_nat (length files) @ '' file(s)'')],
         zip files rs, srv')"
    and "length (zip files rs) = length files"
    and "length (filter (\<lambda>(f, r). xhr_failed r) (zip files rs)) = 1"
proof -
  from answers_length [OF assms(2)] have len: "length rs = length files" .
  then show "length (zip files rs) = length files" by simp
  from len assms(3) show "length (filter (\<lambda>(f, r). xhr_failed r) (zip files rs)) = 1"
    by (simp add: filter_zip_snd)
  from one_failed_rest [OF assms(3)] len
  have c: "length (filter (\<lambda>r. \<not> xhr_failed r) rs) = length files - 1" by simp
  from assms(1)
    onDrop_loop_answers [where upload = upload and folder = folder and completed = 0
      and toasts = "[]" and sent = "[]", OF assms(2)] c
  show "onDrop upload (Some folder) files srv
      = (length files - 1,
         map (\<lambda>(f, r). onDrop_error_toast f r) (filter (\<lambda>(f, r). xhr_failed r) (zip files rs)) @
           [ToastSuccess (''Uploaded '' @ show_nat (length files - 1) @ ''/'' @
              show_nat (length files) @ '' file(s)'')],
         zip files rs, srv')"
    by (simp add: onDrop_def)
qed

lemma handleUpload_one_failure:
  assumes "(if truthy currentFolderId then currentFolderId else map_option gal_folder_id gallery)
      = Some folder"
    and "folder \<noteq> []"
    and "answers (\<lambda>s f. upload s token folder f) files srv = (rs, srv')"
    and "length (filter fetch_failed rs) = 1"
  shows "handleUpload upload token currentFolderId gallery files srv
      = (length files - 1,
         map (\<lambda>(f, r). ToastError (''Failed to upload '' @ uf_name f))
           (filter (\<lambda>(f, r). fetch_failed r) (zip files rs)) @
           (if length files - 1 > 0
            then [ToastSuccess (''Uploaded '' @ show_nat (length files - 1) @ '' file(s)'')]
            else []),
         zip files rs, srv')"
    and "length (zip files rs) = length files"
    and "length (filter (\<lambda>(f, r). fetch_failed r) (zip files rs)) = 1"
proof -
  from answers_length [OF assms(3)] have len: "length rs = length files" .
  then show "length (zip files rs) = length files" by simp
  from len assms(4) show "length (filter (\<lambda>(f, r). fetch_failed r) (zip files rs)) = 1"
    by (simp add: filter_zip_snd)
  from assms(4) have "rs \<noteq> []" by auto
  with len have ne: "files \<noteq> []" by auto
  from one_failed_rest [OF assms(4)] len
  have c: "length (filter (\<lambda>r. \<not> fetch_failed r) rs) = length files - 1" by simp
  from assms(2) have tr: "truthy (Some folder)" by (simp add: truthy_def)
  from ne assms(1) tr
    handleUpload_loop_answers [where upload = upload and token = token and folder = folder
      and uploaded = 0 and toasts = "[]" and sent = "[]", OF assms(3)] c
  show "handleUpload upload token currentFolderId gallery files srv
      = (length files - 1,
         map (\<lambda>(f, r). ToastError (''Failed to upload '' @ uf_name f))
           (filter (\<lambda>(f, r). fetch_failed r) (zip files rs)) @
           (if length files - 1 > 0
            then [ToastSuccess (''Uploaded '' @ show_nat (length files - 1) @ '' file(s)'')]
            else []),
         zip files rs, srv')"
    by (simp add: handleUpload_def Let_def)
qed

lemma server_upload_corrupted:
  "corrupted f \<Longrightarrow>
   server_upload corrupted records folder f = (XhrLoad 400 (Json (Some ''Invalid file'')), records)"
  by (simp add: server_upload_def)

lemma server_upload_sound:
  "\<not> corrupted f \<Longrightarrow>
   server_upload corrupted records folder f = (XhrLoad 200 (Json None), records @ [(folder, uf_name f)])"
  by (simp add: server_upload_def)

lemma answers_server_upload:
  "answers (\<lambda>s f. server_upload corrupted s folder f) files records
   = (map (\<lambda>f. if corrupted f then XhrLoad 400 (Json (Some ''Invalid file''))
               else XhrLoad 200 (Json None)) files,
      records @ map (\<lambda>f. (folder, uf_name f)) (filter (\<lambda>f. \<not> corrupted f) files))"
proof (induction files arbitrary: records)
  case Nil
  then show ?case by simp
next
  case (Cons f rest)
  show ?case
    by (cases "corrupted f") (simp_all add: server_upload_corrupted server_upload_sound Cons.IH)
qed

lemma failed_server_upload:
  "filter xhr_failed (map (\<lambda>f. if corrupted f then XhrLoad 400 (Json (Some ''Invalid file''))
               else XhrLoad 200 (Json None)) files)
   = map (\<lambda>f. XhrLoad 400 (Json (Some ''Invalid file''))) (filter corrupted files)"
proof -
  have a: "xhr_failed (XhrLoad 400 (Json (Some ''Invalid file'')))"
    and b: "\<not> xhr_failed (XhrLoad 200 (Json None))"
    by (simp_all add: xhr_failed_def ok_def)
  show ?thesis
    by (induction files) (simp_all add: a b)
qed

lemma onDrop_server_one_corrupted:
  assumes "folder \<noteq> []" and "length (filter corrupted files) = 1"
  shows "fst (onDrop (server_upload corrupted) (Some folder) files records) = length files - 1"
    and "map fst (fst (snd (snd (onDrop (server_upload corrupted) (Some folder) files records))))
      = files"
    and "snd (snd (snd (onDrop (server_upload corrupted) (Some folder) files records)))
      = records @ map (\<lambda>f. (folder, uf_name f)) (filter (\<lambda>f. \<not> corrupted f) files)"
    and "length (snd (snd (snd (onDrop (server_upload corrupted) (Some folder) files records))))
      = length records + (length files - 1)"
proof -
  let ?rs = "map (\<lambda>f. if corrupted f then XhrLoad 400 (Json (Some ''Invalid file''))
               else XhrLoad 200 (Json None)) files"
  let ?records' = "records @ map (\<lambda>f. (folder, uf_name f)) (filter (\<lambda>f. \<not> corrupted f) files)"
  have a: "answers (\<lambda>s f. server_upload corrupted s folder f) files records = (?rs, ?records')"
    by (rule answers_server_upload)
  have one: "length (filter xhr_failed ?rs) = 1"
    using assms(2) by (simp only: failed_server_upload length_map)
  note r = onDrop_one_failure(1)
    [where upload = "server_upload corrupted" and folder = folder, OF assms(1) a one]
  show "fst (onDrop (server_upload corrupted) (Some folder) files records) = length files - 1"
    by (simp only: r fst_conv)
  show "map fst (fst (snd (snd (onDrop (server_upload corrupted) (Some folder) files records))))
      = files"
    by (simp only: r fst_conv snd_conv) simp
  show "snd (snd (snd (onDrop (server_upload corrupted) (Some folder) files records))) = ?records'"
    by (simp only: r snd_conv)
  from one_failed_rest [OF assms(2)]
  show "length (snd (snd (snd (onDrop (server_upload corrupted) (Some folder) files records))))
      = length records + (length files - 1)"
    by (simp only: r snd_conv) simp
qed

text \<open>
  C5. Take a batch of N files and the answers the back end gives when asked for each of them
  in turn, exactly one of which is a failure. Then the upload loop goes on past the failure:
  it sends a request for each of the N files, in order, and gets those answers; the count of
  completed uploads is N - 1; one error toast names the failed file; and the report is
  "Uploaded N-1/N file(s)", not a failure of the batch. This holds for the admin's
  \<open>onDrop\<close> and for the gallery's \<open>handleUpload\<close> (whose report is
  "Uploaded N-1 file(s)", shown when N - 1 is not 0), whatever back end answers the requests.
  On the back end as specified, where a corrupted file leaves no record, a batch with exactly
  one corrupted file creates exactly N - 1 file records, those of the other files.
\<close>

theorem batch_upload_independence:
  "(folder \<noteq> [] \<and> answers (\<lambda>s f. upload s folder f) files srv = (rs, srv')
      \<and> length (filter xhr_failed rs) = 1 \<longrightarrow>
      onDrop upload (Some folder) files srv
      = (length files - 1,
         map (\<lambda>(f, r). onDrop_error_toast f r) (filter (\<lambda>(f, r). xhr_failed r) (zip files rs)) @
           [ToastSuccess (''Uploaded '' @ show_nat (length files - 1) @ ''/'' @
              show_nat (length files) @ '' file(s)'')],
         zip files rs, srv')
      \<and> length (zip files rs) = length files
      \<and> length (filter (\<lambda>(f, r). xhr_failed r) (zip files rs)) = 1)
   \<and> ((if truthy currentFolderId then currentFolderId else map_option gal_folder_id gallery)
        = Some gfolder
      \<and> gfolder \<noteq> [] \<and> answers (\<lambda>s f. gupload s token gfolder f) gfiles gsrv = (grs, gsrv')
      \<and> length (filter fetch_failed grs) = 1 \<longrightarrow>
      handleUpload gupload token currentFolderId gallery gfiles gsrv
      = (length gfiles - 1,
         map (\<lambda>(f, r). ToastError (''Failed to upload '' @ uf_name f))
           (filter (\<lambda>(f, r). fetch_failed r) (zip gfiles grs)) @
           (if length gfiles - 1 > 0
            then [ToastSuccess (''Uploaded '' @ show_nat (length gfiles - 1) @ '' file(s)'')]
            else []),
         zip gfiles grs, gsrv')
      \<and> length (zip gfiles grs) = length gfiles
      \<and> length (filter (\<lambda>(f, r). fetch_failed r) (zip gfiles grs)) = 1)
   \<and> (cfolder \<noteq> [] \<and> length (filter corrupted cfiles) = 1 \<longrightarrow>
      fst (onDrop (server_upload corrupted) (Some cfolder) cfiles records) = length cfiles - 1
      \<and> map fst (fst (snd (snd (onDrop (server_upload corrupted) (Some cfolder) cfiles records))))
          = cfiles
      \<and> snd (snd (snd (onDrop (server_upload corrupted) (Some cfolder) cfiles records)))
          = records @ map (\<lambda>f. (cfolder, uf_name f)) (filter (\<lambda>f. \<not> corrupted f) cfiles)
      \<and> length (snd (snd (snd (onDrop (server_upload corrupted) (Some cfolder) cfiles records))))
          = length records + (length cfiles - 1))"
proof (intro conjI impI)
  assume a: "folder \<noteq> [] \<and> answers (\<lambda>s f. upload s folder f) files srv = (rs, srv')
      \<and> length (filter xhr_failed rs) = 1"
  then have a1: "folder \<noteq> []"
    and a2: "answers (\<lambda>s f. upload s folder f) files srv = (rs, srv')"
    and a3: "length (filter xhr_failed rs) = 1" by simp_all
  from onDrop_one_failure [where upload = upload and folder = folder, OF a1 a2 a3]
  show "onDrop upload (Some folder) files srv
      = (length files - 1,
         map (\<lambda>(f, r). onDrop_error_toast f r) (filter (\<lambda>(f, r). xhr_failed r) (zip files rs)) @
           [ToastSuccess (''Uploaded '' @ show_nat (length files - 1) @ ''/'' @
              show_nat (length files) @ '' file(s)'')],
         zip files rs, srv')"
    and "length (zip files rs) = length files"
    and "length (filter (\<lambda>(f, r). xhr_failed r) (zip files rs)) = 1"
    by blast+
next
  assume b: "(if truthy currentFolderId then currentFolderId else map_option gal_folder_id gallery)
        = Some gfolder
      \<and> gfolder \<noteq> [] \<and> answers (\<lambda>s f. gupload s token gfolder f) gfiles gsrv = (grs, gsrv')
      \<and> length (filter fetch_failed grs) = 1"
  then have b1: "(if truthy currentFolderId then currentFolderId
        else map_option gal_folder_id gallery) = Some gfolder"
    and b2: "gfolder \<noteq> []"
    and b3: "answers (\<lambda>s f. gupload s token gfolder f) gfiles gsrv = (grs, gsrv')"
    and b4: "length (filter fetch_failed grs) = 1" by simp_all
  from handleUpload_one_failure
    [where upload = gupload and token = token and folder = gfolder, OF b1 b2 b3 b4]
  show "handleUpload gupload token currentFolderId gallery gfiles gsrv
      = (length gfiles - 1,
         map (\<lambda>(f, r). ToastError (''Failed to upload '' @ uf_name f))
           (filter (\<lambda>(f, r). fetch_failed r) (zip gfiles grs)) @
           (if length gfiles - 1 > 0
            then [ToastSuccess (''Uploaded '' @ show_nat (length gfiles - 1) @ '' file(s)'')]
            else []),
         zip gfiles grs, gsrv')"
    and "length (zip gfiles grs) = length gfiles"
    and "length (filter (\<lambda>(f, r). fetch_failed r) (zip gfiles grs)) = 1"
    by blast+
next
  assume c: "cfolder \<noteq> [] \<and> length (filter corrupted cfiles) = 1"
  then have c1: "cfolder \<noteq> []" and c2: "length (filter corrupted cfiles) = 1" by simp_all
  from onDrop_server_one_corrupted [OF c1 c2, of records]
  show "fst (onDrop (server_upload corrupted) (Some cfolder) cfiles records) = length cfiles - 1"
    and "map fst (fst (snd (snd (onDrop (server_upload corrupted) (Some cfolder) cfiles records))))
          = cfiles"
    and "snd (snd (snd (onDrop (server_upload corrupted) (Some cfolder) cfiles records)))
          = records @ map (\<lambda>f. (cfolder, uf_name f)) (filter (\<lambda>f. \<not> corrupted f) cfiles)"
    and "length (snd (snd (snd (onDrop (server_upload corrupted) (Some cfolder) cfiles records))))
          = length records + (length cfiles - 1)"
    by blast+
qed

text \<open>
  The theorem on a batch of three files whose second is refused. In the admin's \<open>onDrop\<close>,
  on the back end as specified: all three requests are sent, two uploads complete, two records
  are created, and the toasts are the failure of the second file and "Uploaded 2/3 file(s)".
  In the gallery's \<open>handleUpload\<close>, with no current folder and the gallery's folder taken
  instead, on a back end that answers 400 for the second file: all three requests are sent,
  and the toasts are the failure of the second file and "Uploaded 2 file(s)".
\<close>

theorem batch_upload_independence_witness:
  "onDrop (server_upload (\<lambda>f. uf_name f = ''b.jpg'')) (Some ''f1'')
     [\<lparr>uf_name = ''a.jpg'', uf_data = ''A''\<rparr>, \<lparr>uf_name = ''b.jpg'', uf_data = ''B''\<rparr>,
      \<lparr>uf_name = ''c.jpg'', uf_data = ''C''\<rparr>] []
   = (2,
      [ToastError ''Failed to upload b.jpg: Invalid file'', ToastSuccess ''Uploaded 2/3 file(s)''],
      [(\<lparr>uf_name = ''a.jpg'', uf_data = ''A''\<rparr>, XhrLoad 200 (Json None)),
       (\<lparr>uf_name = ''b.jpg'', uf_data = ''B''\<rparr>, XhrLoad 400 (Json (Some ''Invalid file''))),
       (\<lparr>uf_name = ''c.jpg'', uf_data = ''C''\<rparr>, XhrLoad 200 (Json None))],
      [(''f1'', ''a.jpg''), (''f1'', ''c.jpg'')])
   \<and> handleUpload
       (\<lambda>records token folder f.
          if uf_name f = ''b.jpg'' then (Response 400 (Json ()), records)
          else (Response 200 (Json ()), records @ [(folder, uf_name f)]))
       ''lisatara'' None
       (Some \<lparr>gal_folder_id = ''f1'', gal_folder_name = ''Lisa'', gal_permission = ''edit''\<rparr>)
       [\<lparr>uf_name = ''a.jpg'', uf_data = ''A''\<rparr>, \<lparr>uf_name = ''b.jpg'', uf_data = ''B''\<rparr>,
        \<lparr>uf_name = ''c.jpg'', uf_data = ''C''\<rparr>] []
   = (2,
      [ToastError ''Failed to upload b.jpg'', ToastSuccess ''Uploaded 2 file(s)''],
      [(\<lparr>uf_name = ''a.jpg'', uf_data = ''A''\<rparr>, Response 200 (Json ())),
       (\<lparr>uf_name = ''b.jpg'', uf_data = ''B''\<rparr>, Response 400 (Json ())),
       (\<lparr>uf_name = ''c.jpg'', uf_data = ''C''\<rparr>, Response 200 (Json ()))],
      [(''f1'', ''a.jpg''), (''f1'', ''c.jpg'')])
   \<and> length (snd (snd (snd (onDrop (server_upload (\<lambda>f. uf_name f = ''b.jpg'')) (Some ''f1'')
       [\<lparr>uf_name = ''a.jpg'', uf_data = ''A''\<rparr>, \<lparr>uf_name = ''b.jpg'', uf_data = ''B''\<rparr>,
        \<lparr>uf_name = ''c.jpg'', uf_data = ''C''\<rparr>] [])))) = 2"
proof -
  let ?a = "\<lparr>uf_name = ''a.jpg'', uf_data = ''A''\<rparr>"
  let ?b = "\<lparr>uf_name = ''b.jpg'', uf_data = ''B''\<rparr>"
  let ?c = "\<lparr>uf_name = ''c.jpg'', uf_data = ''C''\<rparr>"
  let ?corrupted = "\<lambda>f. uf_name f = ''b.jpg''"
  let ?gupload = "\<lambda>records token folder f.
          if uf_name f = ''b.jpg'' then (Response 400 (Json ()), records)
          else (Response 200 (Json ()), records @ [(folder, uf_name f)])"
  let ?gallery = "Some \<lparr>gal_folder_id = ''f1'', gal_folder_name = ''Lisa'', gal_permission = ''edit''\<rparr>"
  let ?rs = "[XhrLoad 200 (Json None), XhrLoad 400 (Json (Some ''Invalid file'')),
       XhrLoad 200 (Json None)]"
  let ?grs = "[Response 200 (Json ()), Response 400 (Json ()), Response 200 (Json ())]"
  let ?records = "[(''f1'', ''a.jpg''), (''f1'', ''c.jpg'')]"
  have f: "''f1'' \<noteq> []" by simp
  have a1: "answers (\<lambda>s f. server_upload ?corrupted s ''f1'' f) [?a, ?b, ?c] [] = (?rs, ?records)"
    by (simp add: server_upload_corrupted server_upload_sound)
  have a2: "length (filter xhr_failed ?rs) = 1"
    by (simp add: xhr_failed_def ok_def)
  have g0: "(if truthy None then None else map_option gal_folder_id ?gallery) = Some ''f1''"
    by (simp add: truthy_def)
  have g1: "answers (\<lambda>s f. ?gupload s ''lisatara'' ''f1'' f) [?a, ?b, ?c] [] = (?grs, ?records)"
    by simp
  have g2: "length (filter fetch_failed ?grs) = 1"
    by (simp add: fetch_failed_def ok_def)
  have c2: "length (filter ?corrupted [?a, ?b, ?c]) = 1" by simp
  note inst = batch_upload_independence
    [where folder = "''f1''" and upload = "server_upload ?corrupted" and files = "[?a, ?b, ?c]"
       and srv = "[]" and rs = ?rs and srv' = ?records
       and currentFolderId = None and gallery = ?gallery and gfolder = "''f1''"
       and gupload = ?gupload and token = "''lisatara''" and gfiles = "[?a, ?b, ?c]"
       and gsrv = "[]" and grs = ?grs and gsrv' = ?records
       and cfolder = "''f1''" and corrupted = ?corrupted and cfiles = "[?a, ?b, ?c]"
       and records = "[]"]
  from inst f a1 a2
  have r1: "onDrop (server_upload ?corrupted) (Some ''f1'') [?a, ?b, ?c] []
      = (length [?a, ?b, ?c] - 1,
         map (\<lambda>(f, r). onDrop_error_toast f r)
           (filter (\<lambda>(f, r). xhr_failed r) (zip [?a, ?b, ?c] ?rs)) @
           [ToastSuccess (''Uploaded '' @ show_nat (length [?a, ?b, ?c] - 1) @ ''/'' @
              show_nat (length [?a, ?b, ?c]) @ '' file(s)'')],
         zip [?a, ?b, ?c] ?rs, ?records)"
    by blast
  from inst f g0 g1 g2
  have r2: "handleUpload ?gupload ''lisatara'' None ?gallery [?a, ?b, ?c] []
      = (length [?a, ?b, ?c] - 1,
         map (\<lambda>(f, r). ToastError (''Failed to upload '' @ uf_name f))
           (filter (\<lambda>(f, r). fetch_failed r) (zip [?a, ?b, ?c] ?grs)) @
           (if length [?a, ?b, ?c] - 1 > 0
            then [ToastSuccess (''Uploaded '' @ show_nat (length [?a, ?b, ?c] - 1) @ '' file(s)'')]
            else []),
         zip [?a, ?b, ?c] ?grs, ?records)"
    by blast
  from inst f c2
  have r3: "length (snd (snd (snd (onDrop (server_upload ?corrupted) (Some ''f1'') [?a, ?b, ?c] []))))
      = length ([] :: (string \<times> string) list) + (length [?a, ?b, ?c] - 1)"
    by blast
  have e1: "onDrop (server_upload ?corrupted) (Some ''f1'') [?a, ?b, ?c] []
      = (2,
         [ToastError ''Failed to upload b.jpg: Invalid file'', ToastSuccess ''Uploaded 2/3 file(s)''],
         [(?a, XhrLoad 200 (Json None)), (?b, XhrLoad 400 (Json (Some ''Invalid file''))),
          (?c, XhrLoad 200 (Json None))],
         ?records)"
    unfolding r1
    by (simp add: xhr_failed_def ok_def onDrop_error_toast_def show_nat_small digit_char_simps)
  have e2: "handleUpload ?gupload ''lisatara'' None ?gallery [?a, ?b, ?c] []
      = (2,
         [ToastError ''Failed to upload b.jpg'', ToastSuccess ''Uploaded 2 file(s)''],
         [(?a, Response 200 (Json ())), (?b, Response 400 (Json ())), (?c, Response 200 (Json ()))],
         ?records)"
    unfolding r2
    by (simp add: fetch_failed_def ok_def show_nat_small digit_char_simps)
  have e3: "length (snd (snd (snd (onDrop (server_upload ?corrupted) (Some ''f1'') [?a, ?b, ?c] []))))
      = 2"
    unfolding r3 by simp
  from e1 e2 e3 show ?thesis by (intro conjI)
qed

section \<open>Order status\<close>

lemma conventional_step_cases:
  "conventional_step s s' \<Longrightarrow> s' \<in> set status_options"
  by (auto simp: conventional_step_def conventional_chain_def status_options_def)

lemma updateStatus_effects:
  "snd (updateStatus api token orderId newStatus r) =
     (if \<not> fetch_failed r
      then [Toast (ToastSuccess (''Order updated to '' @ newStatus)), FetchOrders, FetchStats]
      else [Toast (ToastError ''Failed to update order'')])"
  by (simp add: updateStatus_def fetch_failed_def split: fetched.splits)

text \<open>
  C7. The status select of the admin's orders page offers, from every status, each step of
  the conventional line (pending, paid, processing, shipped, completed) and cancelled from
  every status that is not terminal; it offers every status from every other, so also pending
  from shipped. Every attempt is submitted: \<open>updateStatus\<close> always sends a PUT for that order
  with the chosen status under the admin's bearer token, and whatever comes back it shows a
  toast: on an ok answer (applied) the success toast naming the new status, with orders and
  statistics reloaded; on any other answer or a failed request (rejected) the error toast. It
  is never silent.
\<close>

theorem order_status_transitions:
  "(conventional_step s s' \<longrightarrow> s' \<in> set (status_select_items s))
   \<and> (s \<in> set status_options \<and> \<not> terminal s \<longrightarrow> ''cancelled'' \<in> set (status_select_items s))
   \<and> ''pending'' \<in> set (status_select_items ''shipped'')
   \<and> set (status_select_items s) = set status_options
   \<and> rq_method (fst (updateStatus api token orderId newStatus r)) = ''PUT''
   \<and> rq_url (fst (updateStatus api token orderId newStatus r)) = api @ ''/orders/'' @ orderId @ ''/status''
   \<and> map_of (rq_headers (fst (updateStatus api token orderId newStatus r))) ''Authorization''
        = Some (''Bearer '' @ token)
   \<and> rq_body (fst (updateStatus api token orderId newStatus r)) = [(''status'', newStatus)]
   \<and> (\<not> fetch_failed r \<longrightarrow>
        snd (updateStatus api token orderId newStatus r)
          = [Toast (ToastSuccess (''Order updated to '' @ newStatus)), FetchOrders, FetchStats])
   \<and> (fetch_failed r \<longrightarrow>
        snd (updateStatus api token orderId newStatus r)
          = [Toast (ToastError ''Failed to update order'')])
   \<and> snd (updateStatus api token orderId newStatus r) \<noteq> []"
proof -
  have opts: "''cancelled'' \<in> set status_options" "''pending'' \<in> set status_options"
    by (simp_all add: status_options_def)
  have req: "fst (updateStatus api token orderId newStatus r) =
      \<lparr>rq_method = ''PUT'', rq_url = api @ ''/orders/'' @ orderId @ ''/status'',
       rq_headers = [(''Authorization'', ''Bearer '' @ token), (''Content-Type'', ''application/json'')],
       rq_body = [(''status'', newStatus)]\<rparr>"
    by (simp add: updateStatus_def)
  show ?thesis
    using conventional_step_cases [of s s'] opts
    by (simp add: status_select_items_def req updateStatus_effects)
qed

text \<open>
  The theorem on a shipped order set back to pending: the select offers it, the PUT goes out,
  and a 200 answer and a 409 answer each end in a toast.
\<close>

theorem order_status_transitions_witness:
  "conventional_step ''processing'' ''shipped''
   \<and> ''shipped'' \<in> set (status_select_items ''processing'')
   \<and> updateStatus ''/api'' ''jwt'' ''o1'' ''pending'' (Response 200 (Json ()))
      = (\<lparr>rq_method = ''PUT'', rq_url = ''/api/orders/o1/status'',
          rq_headers = [(''Authorization'', ''Bearer jwt''), (''Content-Type'', ''application/json'')],
          rq_body = [(''status'', ''pending'')]\<rparr>,
         [Toast (ToastSuccess ''Order updated to pending''), FetchOrders, FetchStats])
   \<and> snd (updateStatus ''/api'' ''jwt'' ''o1'' ''pending'' (Response 409 (Json ())))
      = [Toast (ToastError ''Failed to update order'')]"
proof -
  have st: "conventional_step ''processing'' ''shipped''"
    by (simp add: conventional_step_def conventional_chain_def)
  have ok: "\<not> fetch_failed (Response 200 (Json ()))"
    by (simp add: fetch_failed_def ok_def)
  have rej: "fetch_failed (Response 409 (Json ()))"
    by (simp add: fetch_failed_def ok_def)
  from order_status_transitions [of "''processing''" "''shipped''" "''/api''" "''jwt''" "''o1''"
      "''pending''" "Response 200 (Json ())"]
    order_status_transitions [of "''processing''" "''shipped''" "''/api''" "''jwt''" "''o1''"
      "''pending''" "Response 409 (Json ())"] st ok rej
  show ?thesis by (simp add: updateStatus_def ok_def)
qed

section \<open>Clearing the activity log\<close>

text \<open>
  C4 (the defect). The confirmation dialog's action is bound to \<open>clearLogs\<close>, a name that
  neither the module nor the component declares: reading it is a \<open>ReferenceError\<close>, for
  every state and every answer of the back end, so confirming "Clear All" runs no handler,
  sends no DELETE and resets nothing. The statements that would reset logs, total and page on
  an ok answer stand in the file, outside any function.
\<close>

theorem clear_all_handler_unbound:
  "resolve_identifier clear_all_onClick = Inl ReferenceError
   \<and> confirm_clear_all st r = Inl ReferenceError
   \<and> resolve_identifier ''handleSearch'' = Inr ''handleSearch''
   \<and> clear_statements st (Response 200 b)
      = (st\<lparr>al_logs := [], al_total := 0, al_page := 0, al_showClearConfirm := False\<rparr>,
         [ToastSuccess ''Activity logs cleared''])"
  by (simp add: resolve_identifier_def clear_all_onClick_def confirm_clear_all_def
      module_bindings_def component_bindings_def clear_statements_def ok_def)

end
